theory Spec2Isabelle
  imports Complex_Main
begin

section \<open>Python values and string helpers\<close>

text \<open>
  The cells that \<open>pd.read_csv\<close> hands to the script are dynamically typed. A cell is a
  string, a float, an integer, a boolean, \<open>None\<close>, or one of the pandas missing-value
  markers (\<open>numpy.nan\<close>, \<open>pd.NA\<close>, \<open>pd.NaT\<close>). Floats are kept abstract (type
  parameter \<open>'v\<close>): the built-in \<open>float()\<close> is passed to the functions below as
  \<open>float_of\<close>, with \<open>ValueError\<close> as \<open>None\<close>. \<open>PyNaN\<close> is the float NaN that pandas
  stores for an empty cell.

  Strings are byte lists; \<open>strip\<close> and \<open>lower\<close> act on ASCII, as they do in Python on the
  ASCII range.
\<close>

datatype 'v pyval =
    PyStr string
  | PyFloat 'v
  | PyInt int
  | PyBool bool
  | PyNone
  | PyNaN
  | PyNA
  | PyNaT

definition py_isspace :: "char \<Rightarrow> bool" where
  "py_isspace c = (let n = (of_char c :: nat) in (9 \<le> n \<and> n \<le> 13) \<or> (28 \<le> n \<and> n \<le> 32))"

definition py_lower_char :: "char \<Rightarrow> char" where
  "py_lower_char c =
     (let n = (of_char c :: nat) in if 65 \<le> n \<and> n \<le> 90 then char_of (n + 32) else c)"

definition lower :: "string \<Rightarrow> string" where
  "lower s = map py_lower_char s"

definition strip :: "string \<Rightarrow> string" where
  "strip s = rev (dropWhile py_isspace (rev (dropWhile py_isspace s)))"

text \<open>\<open>s.replace(c, '')\<close> for a one-character \<open>c\<close>: every occurrence is removed.\<close>

definition replace_char :: "char \<Rightarrow> string \<Rightarrow> string" where
  "replace_char c s = filter (\<lambda>x. x \<noteq> c) s"

section \<open>clean_currency_value (lines 28-54)\<close>

definition clean_currency_value ::
  "(string \<Rightarrow> 'v option) \<Rightarrow> ('v::{times,numeral}) pyval \<Rightarrow> 'v pyval" where
  "clean_currency_value float_of val_str =
     (case val_str of
        PyStr s0 \<Rightarrow>
          (let s = strip (replace_char CHR '','' (replace_char CHR ''$'' s0)) in
           if lower s = ''none'' \<or> s = '''' then PyNone
           else if CHR ''B'' \<in> set s then
             (case float_of (replace_char CHR ''B'' s) of
                Some v \<Rightarrow> PyFloat (v * 1000)
              | None \<Rightarrow> PyNone)
           else if CHR ''M'' \<in> set s then
             (case float_of (replace_char CHR ''M'' s) of
                Some v \<Rightarrow> PyFloat v
              | None \<Rightarrow> PyNone)
           else
             (case float_of s of
                Some v \<Rightarrow> PyFloat v
              | None \<Rightarrow> PyNone))
      | _ \<Rightarrow> val_str)"

text \<open>
  Two names for intermediate values of the function: \<open>cleaned\<close> is \<open>val_str\<close> after line
  34, and \<open>float_text\<close> is the text that reaches \<open>float()\<close> on lines 40, 46 and 51.
\<close>

definition cleaned :: "string \<Rightarrow> string" where
  "cleaned s0 = strip (replace_char CHR '','' (replace_char CHR ''$'' s0))"

definition float_text :: "string \<Rightarrow> string" where
  "float_text s0 =
     (let s = cleaned s0 in
      if CHR ''B'' \<in> set s then replace_char CHR ''B'' s
      else if CHR ''M'' \<in> set s then replace_char CHR ''M'' s
      else s)"

text \<open>
  The reading of section 4.1 of the specification, for comparison with the code: the unit
  is a \<^emph>\<open>trailing\<close> \<open>B\<close> or \<open>M\<close>, and the numeric remainder is what precedes it.
\<close>

definition normalize_currency_spec ::
  "(string \<Rightarrow> 'v option) \<Rightarrow> string \<Rightarrow> ('v::{times,numeral}) pyval" where
  "normalize_currency_spec float_of s0 =
     (let s = cleaned s0 in
      if lower s = ''none'' \<or> s = '''' then PyNone
      else if last s = CHR ''B'' then
        (case float_of (butlast s) of Some v \<Rightarrow> PyFloat (v * 1000) | None \<Rightarrow> PyNone)
      else if last s = CHR ''M'' then
        (case float_of (butlast s) of Some v \<Rightarrow> PyFloat v | None \<Rightarrow> PyNone)
      else
        (case float_of s of Some v \<Rightarrow> PyFloat v | None \<Rightarrow> PyNone))"

text \<open>
  An instance of \<open>float_of\<close> for evaluating the functions at concrete inputs: it agrees
  with \<open>float()\<close> on non-empty strings of ASCII digits and rejects everything else.
\<close>

fun digits_value :: "nat \<Rightarrow> string \<Rightarrow> nat option" where
  "digits_value acc [] = Some acc"
| "digits_value acc (c # cs) =
     (let n = (of_char c :: nat) in
      if 48 \<le> n \<and> n \<le> 57 then digits_value (10 * acc + (n - 48)) cs else None)"

definition float_of_digits :: "string \<Rightarrow> rat option" where
  "float_of_digits s = (if s = [] then None else map_option of_nat (digits_value 0 s))"

section \<open>Text columns of the batch (lines 112-119)\<close>

text \<open>
  A row of the data frame maps a column name to its cell; a column the CSV file does not
  have is absent from the map. \<open>astype(str)\<close> applies Python's \<open>str\<close> to every cell, so
  the NaN of an empty cell becomes the three-letter string \<open>nan\<close>. The representation of
  a float is left to the parameter \<open>repr\<close>. \<open>replace_missing\<close> is the replacement of
  line 119 on one cell: its keys are NaN, \<open>pd.NA\<close>, \<open>pd.NaT\<close> and the empty string.
\<close>

type_synonym 'v frame_row = "string \<Rightarrow> 'v pyval option"

function str_of_nat :: "nat \<Rightarrow> string" where
  "str_of_nat n =
     (if n < 10 then [char_of (48 + n)]
      else str_of_nat (n div 10) @ [char_of (48 + n mod 10)])"
  by pat_completeness auto
termination
  by (relation "measure id") auto

definition str_of_int :: "int \<Rightarrow> string" where
  "str_of_int i = (if i < 0 then CHR ''-'' # str_of_nat (nat (- i)) else str_of_nat (nat i))"

definition py_str :: "('v \<Rightarrow> string) \<Rightarrow> 'v pyval \<Rightarrow> string" where
  "py_str repr x =
     (case x of
        PyStr s \<Rightarrow> s
      | PyFloat v \<Rightarrow> repr v
      | PyInt i \<Rightarrow> str_of_int i
      | PyBool b \<Rightarrow> (if b then ''True'' else ''False'')
      | PyNone \<Rightarrow> ''None''
      | PyNaN \<Rightarrow> ''nan''
      | PyNA \<Rightarrow> ''<NA>''
      | PyNaT \<Rightarrow> ''NaT'')"

definition text_columns :: "string list" where
  "text_columns =
     [''company_name'', ''industry'', ''country'', ''city'', ''select_investors'',
      ''financial_stage'', ''deal_terms'', ''portfolio_exits'']"

definition astype_str_column :: "('v \<Rightarrow> string) \<Rightarrow> string \<Rightarrow> 'v frame_row \<Rightarrow> 'v frame_row" where
  "astype_str_column repr col_name row =
     (case row col_name of
        None \<Rightarrow> row
      | Some x \<Rightarrow> row(col_name \<mapsto> PyStr (py_str repr x)))"

definition replace_missing :: "'v pyval \<Rightarrow> 'v pyval" where
  "replace_missing x =
     (case x of
        PyNaN \<Rightarrow> PyNone
      | PyNA \<Rightarrow> PyNone
      | PyNaT \<Rightarrow> PyNone
      | PyStr s \<Rightarrow> (if s = [] then PyNone else PyStr s)
      | _ \<Rightarrow> x)"

definition shape_text_columns :: "('v \<Rightarrow> string) \<Rightarrow> 'v frame_row \<Rightarrow> 'v frame_row" where
  "shape_text_columns repr row =
     (\<lambda>col_name. map_option replace_missing (fold (astype_str_column repr) text_columns row col_name))"

section \<open>Calendar dates and the date dimension (lines 133-142)\<close>

text \<open>
  \<open>datetime.date\<close> with its \<open>year\<close>, \<open>month\<close> and \<open>day\<close> attributes. \<open>weekday\<close> follows
  the standard library: the proleptic Gregorian ordinal of the date plus 6, modulo 7, so
  Monday is 0 and Sunday is 6.
\<close>

datatype date = Date (date_year: int) (date_month: int) (date_day: int)

definition is_leap :: "int \<Rightarrow> bool" where
  "is_leap y = (y mod 4 = 0 \<and> (y mod 100 \<noteq> 0 \<or> y mod 400 = 0))"

definition days_before_year :: "int \<Rightarrow> int" where
  "days_before_year y = (let p = y - 1 in p * 365 + p div 4 - p div 100 + p div 400)"

definition days_before_month :: "int \<Rightarrow> int \<Rightarrow> int" where
  "days_before_month y m =
     (if 1 \<le> m \<and> m \<le> 12
      then [0, 31, 59, 90, 120, 151, 181, 212, 243, 273, 304, 334] ! nat (m - 1)
           + (if 2 < m \<and> is_leap y then 1 else 0)
      else 0)"

definition toordinal :: "date \<Rightarrow> int" where
  "toordinal d =
     days_before_year (date_year d) + days_before_month (date_year d) (date_month d) + date_day d"

definition weekday :: "date \<Rightarrow> int" where
  "weekday d = (toordinal d + 6) mod 7"

datatype day_name = Monday | Tuesday | Wednesday | Thursday | Friday | Saturday | Sunday

definition day_names :: "day_name list" where
  "day_names = [Monday, Tuesday, Wednesday, Thursday, Friday, Saturday, Sunday]"

record dim_date_row =
  full_date :: date
  year :: int
  month :: int
  day :: int
  day_of_week :: int
  is_weekday :: bool

definition dim_date_df :: "date list \<Rightarrow> dim_date_row list" where
  "dim_date_df unique_dates =
     map (\<lambda>d. \<lparr>full_date = d, year = date_year d, month = date_month d, day = date_day d,
               day_of_week = weekday d, is_weekday = (weekday d < 5)\<rparr>) unique_dates"

section \<open>The shaped batch and the warehouse tables\<close>

text \<open>
  \<open>company_row\<close> is a row of \<open>dim_company_df\<close> (the columns \<open>dim_company_cols\<close>),
  \<open>fact_row\<close> a row of \<open>fact_unicorn_snapshot\<close>, and \<open>normalized_record\<close> a row of
  \<open>df_transformed\<close> after shaping, with the two key columns the load adds. The batch
  is taken to have every column of \<open>column_mapping\<close>.

  A cell of a key column holds a key, the float NaN, or \<open>None\<close>; the three are told
  apart because line 219 tests \<open>is None\<close>, which NaN does not satisfy. A cell nothing
  has been written to is NaN. The \<open>company_key\<close> column does not exist before the
  company loop. pandas (1.x and 2.x) creates it at the first assignment: as a float64
  column when the value is a key (line 199), as an object column when the value is
  \<open>None\<close> (line 207). A float64 column cannot hold \<open>None\<close>: assigning \<open>None\<close> to it
  stores NaN. An object column keeps \<open>None\<close> as it is.
\<close>

datatype key_cell = KeyNaN | KeyNone | Key nat

datatype key_dtype = NoColumn | Float64 | ObjectDtype

definition dtype_after :: "key_dtype \<Rightarrow> nat option \<Rightarrow> key_dtype" where
  "dtype_after d v =
     (case d of
        NoColumn \<Rightarrow> (case v of None \<Rightarrow> ObjectDtype | Some k \<Rightarrow> Float64)
      | _ \<Rightarrow> d)"

definition cell_of :: "key_dtype \<Rightarrow> nat option \<Rightarrow> key_cell" where
  "cell_of d v =
     (case v of
        Some k \<Rightarrow> Key k
      | None \<Rightarrow> (if d = ObjectDtype then KeyNone else KeyNaN))"

record company_row =
  company_name :: string
  industry :: "string option"
  country :: "string option"
  city :: "string option"
  founded_year :: "int option"
  date_joined_unicorn_club :: "date option"
  select_investors :: "string option"

record 'v fact_row =
  load_date_key :: nat
  company_key :: nat
  valuation_billion :: "'v option"
  total_raised_million :: "'v option"
  financial_stage :: "string option"
  investors_count :: "int option"
  deal_terms :: "string option"
  portfolio_exits :: "string option"

record 'v normalized_record =
  company_name :: string
  valuation_billion :: "'v option"
  date_joined_unicorn_club :: "date option"
  country :: "string option"
  city :: "string option"
  industry :: "string option"
  select_investors :: "string option"
  founded_year :: "int option"
  total_raised_million :: "'v option"
  financial_stage :: "string option"
  investors_count :: "int option"
  deal_terms :: "string option"
  portfolio_exits :: "string option"
  load_date :: date
  load_date_key :: key_cell
  company_key :: key_cell

text \<open>
  The database schema is not part of the repository. The tables are lists of rows in
  insertion order; a dimension row is paired with the surrogate key the storage assigned
  to it, taken from a counter per table.
\<close>

record 'v tables =
  dim_date :: "(nat \<times> dim_date_row) list"
  dim_company :: "(nat \<times> company_row) list"
  fact_unicorn_snapshot :: "'v fact_row list"

text \<open>
  The connection. \<open>working\<close> is what the statements of the open transaction see,
  \<open>committed\<close> what is durable. \<open>in_txn\<close> tells whether a transaction is in progress:
  the first statement begins one, \<open>commit\<close> and \<open>rollback\<close> end it, and a \<open>commit\<close> with
  no transaction in progress does nothing. \<open>faults\<close> scripts the storage errors: each
  call that reaches the database consumes one entry and raises when it is \<open>True\<close>; past
  the end of the script no call raises. \<open>rollback\<close>, the recovery action of the
  \<open>except\<close> branches, is taken not to raise.
\<close>

record 'v connection =
  committed :: "'v tables"
  working :: "'v tables"
  in_txn :: bool
  date_key_seq :: nat
  company_key_seq :: nat
  faults :: "bool list"

definition next_fault :: "'v connection \<Rightarrow> bool \<times> 'v connection" where
  "next_fault c = (case faults c of [] \<Rightarrow> (False, c) | f # fs \<Rightarrow> (f, c\<lparr>faults := fs\<rparr>))"

definition execute :: "'v connection \<Rightarrow> bool \<times> 'v connection" where
  "execute c = (case next_fault c of (raised, c') \<Rightarrow> (raised, c'\<lparr>in_txn := True\<rparr>))"

definition begin_nested :: "'v connection \<Rightarrow> bool \<times> 'v connection" where
  "begin_nested c = execute c"

definition commit :: "'v connection \<Rightarrow> bool \<times> 'v connection" where
  "commit c =
     (if \<not> in_txn c then (False, c)
      else case next_fault c of
             (raised, c') \<Rightarrow>
               if raised then (True, c')
               else (False, c'\<lparr>committed := working c', in_txn := False\<rparr>))"

definition rollback :: "'v connection \<Rightarrow> 'v connection" where
  "rollback c = c\<lparr>working := committed c, in_txn := False\<rparr>"

text \<open>Leaving the \<open>with\<close> block closes the connection; work not committed is lost.\<close>

definition close :: "'v connection \<Rightarrow> 'v connection" where
  "close c = rollback c"

subsection \<open>The SQL statements\<close>

definition select_dates :: "'v tables \<Rightarrow> (date \<times> nat) list" where
  "select_dates t = map (\<lambda>(k, r). (full_date r, k)) (dim_date t)"

definition select_dates_in :: "date list \<Rightarrow> 'v tables \<Rightarrow> (date \<times> nat) list" where
  "select_dates_in dates t = filter (\<lambda>(d, k). d \<in> set dates) (select_dates t)"

definition insert_dates :: "nat \<Rightarrow> dim_date_row list \<Rightarrow> 'v tables \<Rightarrow> 'v tables" where
  "insert_dates seq rows t = t\<lparr>dim_date := dim_date t @ zip [seq ..< seq + length rows] rows\<rparr>"

definition select_company_key :: "string \<Rightarrow> 'v tables \<Rightarrow> nat option" where
  "select_company_key name t =
     map_option fst (find (\<lambda>(k, r). company_row.company_name r = name) (dim_company t))"

definition update_company :: "company_row \<Rightarrow> 'v tables \<Rightarrow> 'v tables" where
  "update_company row t =
     t\<lparr>dim_company :=
         map (\<lambda>(k, r). if company_row.company_name r = company_row.company_name row
                        then (k, row) else (k, r))
           (dim_company t)\<rparr>"

definition insert_company :: "nat \<Rightarrow> company_row \<Rightarrow> 'v tables \<Rightarrow> 'v tables" where
  "insert_company key row t = t\<lparr>dim_company := dim_company t @ [(key, row)]\<rparr>"

definition same_fact_key :: "'v fact_row \<Rightarrow> 'v fact_row \<Rightarrow> bool" where
  "same_fact_key a b =
     (fact_row.load_date_key a = fact_row.load_date_key b
      \<and> fact_row.company_key a = fact_row.company_key b)"

text \<open>
  \<open>INSERT ... ON CONFLICT (load_date_key, company_key) DO UPDATE\<close>: the row replaces
  the attributes of a stored row with its key pair, or is appended. The statement reports
  one affected row either way.
\<close>

definition upsert_fact :: "'v fact_row \<Rightarrow> 'v tables \<Rightarrow> nat \<times> 'v tables" where
  "upsert_fact row t =
     (if list_ex (same_fact_key row) (fact_unicorn_snapshot t)
      then (1, t\<lparr>fact_unicorn_snapshot :=
                   map (\<lambda>r. if same_fact_key row r then row else r) (fact_unicorn_snapshot t)\<rparr>)
      else (1, t\<lparr>fact_unicorn_snapshot := fact_unicorn_snapshot t @ [row]\<rparr>))"

subsection \<open>Data frame helpers\<close>

text \<open>
  \<open>unique()\<close> and \<open>drop_duplicates(subset=...)\<close> keep the first row of each key, in
  order of appearance. \<open>dict_of\<close> builds a dictionary from pairs, a later pair
  overwriting an earlier one with the same key.
\<close>

fun keep_first :: "('a \<Rightarrow> 'k) \<Rightarrow> 'k list \<Rightarrow> 'a list \<Rightarrow> 'a list" where
  "keep_first key seen [] = []"
| "keep_first key seen (x # xs) =
     (if key x \<in> set seen then keep_first key seen xs
      else x # keep_first key (key x # seen) xs)"

definition unique :: "'a list \<Rightarrow> 'a list" where
  "unique xs = keep_first (\<lambda>x. x) [] xs"

definition drop_duplicates :: "('a \<Rightarrow> 'k) \<Rightarrow> 'a list \<Rightarrow> 'a list" where
  "drop_duplicates key rows = keep_first key [] rows"

definition dict_update :: "('k \<rightharpoonup> 'a) \<Rightarrow> ('k \<times> 'a) list \<Rightarrow> ('k \<rightharpoonup> 'a)" where
  "dict_update m pairs = foldl (\<lambda>m (k, v). m(k \<mapsto> v)) m pairs"

definition dict_of :: "('k \<times> 'a) list \<Rightarrow> ('k \<rightharpoonup> 'a)" where
  "dict_of pairs = dict_update Map.empty pairs"

definition dim_company_cols :: "'v normalized_record \<Rightarrow> company_row" where
  "dim_company_cols r =
     \<lparr>company_row.company_name = company_name r,
      company_row.industry = industry r,
      company_row.country = country r,
      company_row.city = city r,
      company_row.founded_year = founded_year r,
      company_row.date_joined_unicorn_club = date_joined_unicorn_club r,
      company_row.select_investors = select_investors r\<rparr>"

definition dim_company_df :: "'v normalized_record list \<Rightarrow> company_row list" where
  "dim_company_df df = drop_duplicates company_row.company_name (map dim_company_cols df)"

text \<open>
  The cells of the rows selected by \<open>df['company_name'] == name\<close> are overwritten;
  \<open>loc_company_key\<close> below chooses the cell from the value and the column's dtype.
\<close>

definition set_company_key ::
  "string \<Rightarrow> key_cell \<Rightarrow> 'v normalized_record list \<Rightarrow> 'v normalized_record list" where
  "set_company_key name cell df =
     map (\<lambda>r. if company_name r = name then r\<lparr>company_key := cell\<rparr> else r) df"

section \<open>The load (lines 128-258)\<close>

datatype error = DatabaseError | ValueError

subsection \<open>Date dimension (lines 133-159)\<close>

text \<open>
  An exception raised here is not caught inside the step: it ends the \<open>with\<close> block.
  The result is the error, or the batch with its \<open>load_date_key\<close> column.
\<close>

definition to_sql_dim_date :: "dim_date_row list \<Rightarrow> 'v connection \<Rightarrow> bool \<times> 'v connection" where
  "to_sql_dim_date rows c =
     (case execute c of
        (raised, c') \<Rightarrow>
          if raised then (True, c')
          else (False, c'\<lparr>working := insert_dates (date_key_seq c') rows (working c'),
                          date_key_seq := date_key_seq c' + length rows\<rparr>))"

definition map_load_date_key ::
  "(date \<rightharpoonup> nat) \<Rightarrow> 'v normalized_record list \<Rightarrow> 'v normalized_record list" where
  "map_load_date_key existing_date_map df =
     map (\<lambda>r. r\<lparr>load_date_key :=
                 (case existing_date_map (load_date r) of Some k \<Rightarrow> Key k | None \<Rightarrow> KeyNaN)\<rparr>)
       df"

definition reconcile_dates ::
  "'v normalized_record list \<Rightarrow> 'v connection
     \<Rightarrow> (error + 'v normalized_record list) \<times> 'v connection" where
  "reconcile_dates df c0 =
     (let unique_dates = unique (map load_date df);
          new_candidates = dim_date_df unique_dates
      in case execute c0 of
           (raised1, c1) \<Rightarrow>
             if raised1 then (Inl DatabaseError, c1)
             else
               let existing_date_map = dict_of (select_dates (working c1));
                   new_dates_to_insert =
                     filter (\<lambda>r. existing_date_map (full_date r) = None) new_candidates
               in if new_dates_to_insert = []
                  then (Inr (map_load_date_key existing_date_map df), c1)
                  else
                    case to_sql_dim_date new_dates_to_insert c1 of
                      (raised2, c2) \<Rightarrow>
                        if raised2 then (Inl DatabaseError, c2)
                        else
                          case commit c2 of
                            (raised3, c3) \<Rightarrow>
                              if raised3 then (Inl DatabaseError, c3)
                              else
                                case execute c3 of
                                  (raised4, c4) \<Rightarrow>
                                    if raised4 then (Inl DatabaseError, c4)
                                    else
                                      let new_inserted_dates_query =
                                            select_dates_in
                                              (map full_date new_dates_to_insert) (working c4);
                                          existing_date_map' =
                                            dict_update existing_date_map new_inserted_dates_query
                                      in (Inr (map_load_date_key existing_date_map' df),
                                          c4))"

text \<open>
  Names for two local variables of the step, as functions of the tables the first query
  reads: \<open>existing_date_map\<close> after line 146 and \<open>new_dates_to_insert\<close> of line 148.
\<close>

definition existing_date_map_of :: "'v tables \<Rightarrow> (date \<rightharpoonup> nat)" where
  "existing_date_map_of t = dict_of (select_dates t)"

definition new_dates_to_insert_of :: "'v normalized_record list \<Rightarrow> 'v tables \<Rightarrow> dim_date_row list" where
  "new_dates_to_insert_of df t =
     filter (\<lambda>r. existing_date_map_of t (full_date r) = None)
       (dim_date_df (unique (map load_date df)))"

subsection \<open>Company dimension (lines 162-209)\<close>

record 'v company_state =
  conn :: "'v connection"
  df_transformed :: "'v normalized_record list"
  company_key_dtype :: key_dtype
  rows_inserted_company :: nat
  rows_updated_company :: nat

text \<open>\<open>df_transformed.loc[df_transformed['company_name'] == name, 'company_key'] = v\<close>\<close>

definition loc_company_key :: "string \<Rightarrow> nat option \<Rightarrow> 'v company_state \<Rightarrow> 'v company_state" where
  "loc_company_key name v s =
     s\<lparr>df_transformed :=
         set_company_key name (cell_of (dtype_after (company_key_dtype s) v) v) (df_transformed s),
       company_key_dtype := dtype_after (company_key_dtype s) v\<rparr>"

text \<open>
  Lines 199-201, shared by the update and the insert branch: the key is written to the
  batch, then the transaction is committed.
\<close>

definition store_key_and_commit :: "string \<Rightarrow> nat \<Rightarrow> 'v company_state \<Rightarrow> bool \<times> 'v company_state" where
  "store_key_and_commit name key s =
     (let s' = loc_company_key name (Some key) s
      in case commit (conn s') of (raised, c) \<Rightarrow> (raised, s'\<lparr>conn := c\<rparr>))"

text \<open>
  The body of the \<open>try\<close> (lines 170-201). The result tells whether a call raised, and
  gives the state at that point: counters already incremented stay incremented.
\<close>

definition company_try :: "company_row \<Rightarrow> 'v company_state \<Rightarrow> bool \<times> 'v company_state" where
  "company_try row_data s =
     (case begin_nested (conn s) of
        (raised1, c1) \<Rightarrow>
          if raised1 then (True, s\<lparr>conn := c1\<rparr>)
          else
            case execute c1 of
              (raised2, c2) \<Rightarrow>
                if raised2 then (True, s\<lparr>conn := c2\<rparr>)
                else
                  case select_company_key (company_row.company_name row_data) (working c2) of
                    Some key \<Rightarrow>
                      (case execute c2 of
                         (raised3, c3) \<Rightarrow>
                           if raised3 then (True, s\<lparr>conn := c3\<rparr>)
                           else
                             store_key_and_commit (company_row.company_name row_data) key
                               (s\<lparr>conn := c3\<lparr>working := update_company row_data (working c3)\<rparr>,
                                  rows_updated_company := rows_updated_company s + 1\<rparr>))
                  | None \<Rightarrow>
                      (case execute c2 of
                         (raised3, c3) \<Rightarrow>
                           if raised3 then (True, s\<lparr>conn := c3\<rparr>)
                           else
                             store_key_and_commit (company_row.company_name row_data)
                               (company_key_seq c3)
                               (s\<lparr>conn := c3\<lparr>working :=
                                                 insert_company (company_key_seq c3) row_data
                                                   (working c3),
                                               company_key_seq := company_key_seq c3 + 1\<rparr>,
                                  rows_inserted_company := rows_inserted_company s + 1\<rparr>)))"

text \<open>One iteration: the \<open>try\<close> body, and the \<open>except\<close> branch (lines 203-207).\<close>

definition company_step :: "company_row \<Rightarrow> 'v company_state \<Rightarrow> 'v company_state" where
  "company_step row_data s =
     (case company_try row_data s of
        (raised, s') \<Rightarrow>
          if raised
          then loc_company_key (company_row.company_name row_data) None
                 (s'\<lparr>conn := rollback (conn s')\<rparr>)
          else s')"

definition reconcile_companies :: "company_row list \<Rightarrow> 'v company_state \<Rightarrow> 'v company_state" where
  "reconcile_companies rows s = fold company_step rows s"

subsection \<open>Fact table (lines 212-253)\<close>

record 'v fact_state =
  fconn :: "'v connection"
  rows_inserted_fact :: nat
  rows_skipped_fact :: nat

definition fact_cols :: "nat \<Rightarrow> nat \<Rightarrow> 'v normalized_record \<Rightarrow> 'v fact_row" where
  "fact_cols date_key key r =
     \<lparr>fact_row.load_date_key = date_key,
      fact_row.company_key = key,
      fact_row.valuation_billion = valuation_billion r,
      fact_row.total_raised_million = total_raised_million r,
      fact_row.financial_stage = financial_stage r,
      fact_row.investors_count = investors_count r,
      fact_row.deal_terms = deal_terms r,
      fact_row.portfolio_exits = portfolio_exits r\<rparr>"

text \<open>
  The body of the \<open>try\<close> (lines 227-245), for a row whose \<open>company_key\<close> line 224
  has converted to the integer \<open>key\<close>. The date key is bound as the cell holds it; the
  key columns of the fact table are integers, so a statement that binds NaN raises.
\<close>

definition fact_try ::
  "key_cell \<Rightarrow> nat \<Rightarrow> 'v normalized_record \<Rightarrow> 'v fact_state \<Rightarrow> bool \<times> 'v fact_state" where
  "fact_try date_cell key r s =
     (case begin_nested (fconn s) of
        (raised1, c1) \<Rightarrow>
          if raised1 then (True, s\<lparr>fconn := c1\<rparr>)
          else
            case execute c1 of
              (raised2, c2) \<Rightarrow>
                if raised2 then (True, s\<lparr>fconn := c2\<rparr>)
                else
                  case date_cell of
                    Key date_key \<Rightarrow>
                      (case upsert_fact (fact_cols date_key key r) (working c2) of
                         (rowcount, t) \<Rightarrow>
                           let s' = (if 0 < rowcount
                                     then s\<lparr>rows_inserted_fact := rows_inserted_fact s + 1\<rparr>
                                     else s\<lparr>rows_skipped_fact := rows_skipped_fact s + 1\<rparr>)
                           in case commit (c2\<lparr>working := t\<rparr>) of
                                (raised3, c3) \<Rightarrow> (raised3, s'\<lparr>fconn := c3\<rparr>))
                  | _ \<Rightarrow> (True, s\<lparr>fconn := c2\<rparr>))"

text \<open>
  One iteration (lines 219-251). Line 219 skips a row one of whose key cells is \<open>None\<close>.
  Line 224, \<open>int(row_data['company_key'])\<close>, stands before the \<open>try\<close>: on a NaN cell
  it raises \<open>ValueError\<close>, which nothing in the loop catches. The result is that error,
  or nothing, with the state reached.
\<close>

definition fact_step ::
  "'v normalized_record \<Rightarrow> 'v fact_state \<Rightarrow> error option \<times> 'v fact_state" where
  "fact_step r s =
     (if company_key r = KeyNone \<or> load_date_key r = KeyNone
      then (None, s\<lparr>rows_skipped_fact := rows_skipped_fact s + 1\<rparr>)
      else
        case company_key r of
          Key key \<Rightarrow>
            (case fact_try (load_date_key r) key r s of
               (raised, s') \<Rightarrow>
                 if raised
                 then (None, s'\<lparr>fconn := rollback (fconn s'),
                               rows_skipped_fact := rows_skipped_fact s' + 1\<rparr>)
                 else (None, s'))
        | _ \<Rightarrow> (Some ValueError, s))"

text \<open>The loop ends at the first iteration that raises.\<close>

fun upsert_facts ::
  "'v normalized_record list \<Rightarrow> 'v fact_state \<Rightarrow> error option \<times> 'v fact_state" where
  "upsert_facts [] s = (None, s)"
| "upsert_facts (r # df_fact) s =
     (case fact_step r s of
        (Some e, s') \<Rightarrow> (Some e, s')
      | (None, s') \<Rightarrow> upsert_facts df_fact s')"

subsection \<open>One cycle\<close>

text \<open>
  The phases a cycle enters, logged in order as the code reaches them; the shaped batch
  is the input. An empty CSV file ends the cycle before the load (line 68).
  \<open>engine.connect()\<close> is a storage call of its own. An exception that leaves a step ends
  the \<open>with\<close> block and is caught on lines 255-258: the cycle is aborted.
\<close>

datatype phase = EmptyBatch | DateReconcile | CompanyReconcile | FactUpsert | Done | CycleAborted

record 'v cycle_result =
  phases :: "phase list"
  connection_after :: "'v connection"
  companies_inserted :: nat
  companies_updated :: nat
  facts_written :: nat
  facts_skipped :: nat

definition cycle_end :: "phase list \<Rightarrow> 'v connection \<Rightarrow> nat \<Rightarrow> nat \<Rightarrow> nat \<Rightarrow> nat \<Rightarrow> 'v cycle_result" where
  "cycle_end ps c ci cu fw fs =
     \<lparr>phases = ps, connection_after = c, companies_inserted = ci, companies_updated = cu,
      facts_written = fw, facts_skipped = fs\<rparr>"

definition load_cycle :: "'v normalized_record list \<Rightarrow> 'v connection \<Rightarrow> 'v cycle_result" where
  "load_cycle df c0 =
     (if df = [] then cycle_end [EmptyBatch] c0 0 0 0 0
      else
        case next_fault c0 of
          (raised0, c) \<Rightarrow>
            if raised0 then cycle_end [CycleAborted] c 0 0 0 0
            else
              let log1 = [DateReconcile]
              in case reconcile_dates df c of
                   (Inl e, c1) \<Rightarrow> cycle_end (log1 @ [CycleAborted]) (close c1) 0 0 0 0
                 | (Inr df1, c1) \<Rightarrow>
                     let log2 = log1 @ [CompanyReconcile];
                         s2 = reconcile_companies (dim_company_df df1)
                                \<lparr>conn = c1, df_transformed = df1, company_key_dtype = NoColumn,
                                 rows_inserted_company = 0, rows_updated_company = 0\<rparr>
                     in case commit (conn s2) of
                          (raised, c2) \<Rightarrow>
                            if raised
                            then cycle_end (log2 @ [CycleAborted]) (close c2)
                                   (rows_inserted_company s2) (rows_updated_company s2) 0 0
                            else
                              let log3 = log2 @ [FactUpsert]
                              in case upsert_facts (df_transformed s2)
                                        \<lparr>fconn = c2, rows_inserted_fact = 0,
                                         rows_skipped_fact = 0\<rparr> of
                                   (Some e, s3) \<Rightarrow>
                                     cycle_end (log3 @ [CycleAborted]) (close (fconn s3))
                                       (rows_inserted_company s2) (rows_updated_company s2)
                                       (rows_inserted_fact s3) (rows_skipped_fact s3)
                                 | (None, s3) \<Rightarrow>
                                     cycle_end (log3 @ [Done]) (close (fconn s3))
                                       (rows_inserted_company s2) (rows_updated_company s2)
                                       (rows_inserted_fact s3) (rows_skipped_fact s3))"

section \<open>Concrete inputs\<close>

text \<open>
  The scenario of section 8 of the specification: the company Acme, loaded on 2024-01-01
  into an empty warehouse. \<open>fresh_connection fs\<close> is a new connection to the empty
  warehouse whose storage calls raise as \<open>fs\<close> says. \<open>acme_raw\<close> is a raw row whose
  \<open>Industry\<close> cell is empty in the CSV file and whose \<open>City\<close> cell holds the empty string.
\<close>

definition empty_tables :: "rat tables" where
  "empty_tables = \<lparr>dim_date = [], dim_company = [], fact_unicorn_snapshot = []\<rparr>"

definition fresh_connection :: "bool list \<Rightarrow> rat connection" where
  "fresh_connection fs =
     \<lparr>committed = empty_tables, working = empty_tables, in_txn = False,
      date_key_seq = 1, company_key_seq = 1, faults = fs\<rparr>"

definition acme :: "rat normalized_record" where
  "acme =
     \<lparr>company_name = ''Acme'', valuation_billion = Some 2000,
      date_joined_unicorn_club = Some (Date 2021 5 1), country = None, city = None,
      industry = None, select_investors = None, founded_year = Some 2015,
      total_raised_million = None, financial_stage = None, investors_count = None,
      deal_terms = None, portfolio_exits = None, load_date = Date 2024 1 1,
      load_date_key = KeyNaN, company_key = KeyNaN\<rparr>"

definition bolt :: "rat normalized_record" where
  "bolt = acme\<lparr>company_name := ''Bolt'', valuation_billion := Some 1500\<rparr>"

definition acme_raw :: "rat frame_row" where
  "acme_raw =
     [''company_name'' \<mapsto> PyStr ''Acme'', ''industry'' \<mapsto> PyNaN, ''city'' \<mapsto> PyStr [],
      ''valuation_billion'' \<mapsto> PyStr ''$2B'']"

definition repr_digits :: "rat \<Rightarrow> string" where
  "repr_digits v = str_of_int (floor v)"

definition company_state_of :: "rat normalized_record list \<Rightarrow> bool list \<Rightarrow> rat company_state" where
  "company_state_of df fs =
     \<lparr>conn = fresh_connection fs, df_transformed = df, company_key_dtype = NoColumn,
      rows_inserted_company = 0, rows_updated_company = 0\<rparr>"

section \<open>Lemmas on the string helpers\<close>





lemma replace_char_id: "c \<notin> set s \<Longrightarrow> replace_char c s = s"
  by (auto simp add: replace_char_def filter_id_conv)

lemma replace_char_append: "replace_char c (a @ b) = replace_char c a @ replace_char c b"
  by (simp add: replace_char_def)






lemma clean_currency_value_PyStr:
  "clean_currency_value float_of (PyStr s0) =
     (if lower (cleaned s0) = ''none'' \<or> cleaned s0 = '''' then PyNone
      else case float_of (float_text s0) of
             Some v \<Rightarrow> PyFloat (if CHR ''B'' \<in> set (cleaned s0) then v * 1000 else v)
           | None \<Rightarrow> PyNone)"
  by (simp add: clean_currency_value_def cleaned_def float_text_def Let_def split: option.splits)




section \<open>Claims on the currency normalizer\<close>



text \<open>
  Claim C6 says that a \<open>B\<close> or \<open>M\<close> counts as a unit only in trailing position. The code
  tests \<open>'B' in val_str\<close> and removes every \<open>B\<close>: on \<open>B5\<close> it returns 5000, where the
  trailing-suffix reading gives \<open>None\<close>.
\<close>

theorem unit_suffix_position_counterexample:
  "clean_currency_value float_of_digits (PyStr ''B5'') = PyFloat 5000
   \<and> normalize_currency_spec float_of_digits ''B5'' = PyNone"
  by code_simp

lemma spec_agrees_when_unit_trailing:
  assumes "CHR ''B'' \<notin> set (butlast (cleaned s0))" and "CHR ''M'' \<notin> set (butlast (cleaned s0))"
  shows "clean_currency_value float_of (PyStr s0) = normalize_currency_spec float_of s0"
proof (cases "lower (cleaned s0) = ''none'' \<or> cleaned s0 = []")
  case True
  then show ?thesis
    by (auto simp add: clean_currency_value_PyStr normalize_currency_spec_def)
next
  case False
  define s where "s = cleaned s0"
  have ne: "s \<noteq> []" and nn: "lower s \<noteq> ''none''" using False by (simp_all add: s_def)
  have split: "s = butlast s @ [last s]" using ne by simp
  have nb: "CHR ''B'' \<notin> set (butlast s)" and nm: "CHR ''M'' \<notin> set (butlast s)"
    using assms by (simp_all add: s_def)
  have mem: "\<And>c. c \<in> set s \<longleftrightarrow> c \<in> set (butlast s) \<or> c = last s"
    using split by (metis Un_iff empty_iff empty_set insert_iff list.simps(15) set_append)
  have rep: "\<And>c. c \<notin> set (butlast s) \<Longrightarrow> last s = c \<Longrightarrow> replace_char c s = butlast s"
  proof -
    fix c assume a: "c \<notin> set (butlast s)" and b: "last s = c"
    have "replace_char c s = replace_char c (butlast s) @ replace_char c [last s]"
      using split by (metis replace_char_append)
    then show "replace_char c s = butlast s"
      using a b by (simp add: replace_char_id) (simp add: replace_char_def)
  qed
  consider (B) "last s = CHR ''B''" | (M) "last s = CHR ''M''"
    | (N) "last s \<noteq> CHR ''B''" "last s \<noteq> CHR ''M''" by blast
  then have "clean_currency_value float_of (PyStr s0) = normalize_currency_spec float_of s0"
  proof cases
    case B
    then have "CHR ''B'' \<in> set s" using mem by simp
    moreover have "replace_char CHR ''B'' s = butlast s" using rep nb B by simp
    ultimately show ?thesis
      using ne nn B unfolding clean_currency_value_PyStr normalize_currency_spec_def float_text_def Let_def s_def [symmetric]
      by (simp split: option.splits)
  next
    case M
    then have "CHR ''B'' \<notin> set s" "CHR ''M'' \<in> set s" using mem nb by auto
    moreover have "replace_char CHR ''M'' s = butlast s" using rep nm M by simp
    ultimately show ?thesis
      using ne nn M unfolding clean_currency_value_PyStr normalize_currency_spec_def float_text_def Let_def s_def [symmetric]
      by (simp split: option.splits)
  next
    case N
    then have "CHR ''B'' \<notin> set s" "CHR ''M'' \<notin> set s" using mem nb nm by auto
    then show ?thesis
      using ne nn N unfolding clean_currency_value_PyStr normalize_currency_spec_def float_text_def Let_def s_def [symmetric]
      by (simp split: option.splits)
  qed
  then show ?thesis .
qed

text \<open>
  Claim C6, amended. For a cleaned string that is neither empty nor \<open>none\<close>: if it
  contains a \<open>B\<close> anywhere, every \<open>B\<close> is removed, the rest is parsed and the value is
  multiplied by 1000; otherwise, if it contains an \<open>M\<close> anywhere, every \<open>M\<close> is removed
  and the rest is parsed unscaled; otherwise the string is parsed as it is. The result
  coincides with the trailing-suffix reading whenever \<open>B\<close> and \<open>M\<close> occur at most as the
  last character.
\<close>

theorem normalize_currency_unit_anywhere:
  assumes "lower (cleaned s0) \<noteq> ''none''" and "cleaned s0 \<noteq> []"
  shows "(CHR ''B'' \<in> set (cleaned s0) \<longrightarrow>
            clean_currency_value float_of (PyStr s0) =
              (case float_of (replace_char CHR ''B'' (cleaned s0)) of
                 Some v \<Rightarrow> PyFloat (v * 1000) | None \<Rightarrow> PyNone))
       \<and> (CHR ''B'' \<notin> set (cleaned s0) \<and> CHR ''M'' \<in> set (cleaned s0) \<longrightarrow>
            clean_currency_value float_of (PyStr s0) =
              (case float_of (replace_char CHR ''M'' (cleaned s0)) of
                 Some v \<Rightarrow> PyFloat v | None \<Rightarrow> PyNone))
       \<and> (CHR ''B'' \<notin> set (cleaned s0) \<and> CHR ''M'' \<notin> set (cleaned s0) \<longrightarrow>
            clean_currency_value float_of (PyStr s0) =
              (case float_of (cleaned s0) of Some v \<Rightarrow> PyFloat v | None \<Rightarrow> PyNone))
       \<and> (CHR ''B'' \<notin> set (butlast (cleaned s0)) \<and> CHR ''M'' \<notin> set (butlast (cleaned s0)) \<longrightarrow>
            clean_currency_value float_of (PyStr s0) = normalize_currency_spec float_of s0)"
  using assms spec_agrees_when_unit_trailing [of s0 float_of]
  by (simp add: clean_currency_value_PyStr float_text_def Let_def split: option.splits)

theorem normalize_currency_unit_anywhere_witness:
  "clean_currency_value float_of_digits (PyStr ''1B5'') = PyFloat 15000
   \<and> clean_currency_value float_of_digits (PyStr ''$12B'') = normalize_currency_spec float_of_digits ''$12B''"
proof -
  have a: "lower (cleaned ''1B5'') \<noteq> ''none''" "cleaned ''1B5'' \<noteq> []" by code_simp+
  have b: "lower (cleaned ''$12B'') \<noteq> ''none''" "cleaned ''$12B'' \<noteq> []" by code_simp+
  have c: "CHR ''B'' \<in> set (cleaned ''1B5'')" by code_simp
  have d: "float_of_digits (replace_char CHR ''B'' (cleaned ''1B5'')) = Some 15" by code_simp
  have e: "CHR ''B'' \<notin> set (butlast (cleaned ''$12B''))" "CHR ''M'' \<notin> set (butlast (cleaned ''$12B''))"
    by code_simp+
  show ?thesis
    using normalize_currency_unit_anywhere [of "''1B5''" float_of_digits, OF a]
      normalize_currency_unit_anywhere [of "''$12B''" float_of_digits, OF b] c d e
    by simp
qed

text \<open>
  Claim C7 says that every input, string or not, is mapped to a number or to \<open>None\<close>. Line
  54 returns a non-string input unchanged: the NaN of an empty cell stays NaN, and a
  boolean stays a boolean.
\<close>

theorem non_string_passthrough_counterexample:
  "clean_currency_value float_of_digits PyNaN = PyNaN
   \<and> clean_currency_value float_of_digits (PyBool True) = PyBool True"
  by (simp add: clean_currency_value_def)

text \<open>
  Claim C7, amended. \<open>clean_currency_value\<close> returns a value for every input. A string
  is mapped to a float or to \<open>None\<close>, and to \<open>None\<close> whenever \<open>float()\<close> rejects its
  numeric part; an input that is not a string is returned unchanged.
\<close>

theorem clean_currency_value_total:
  "(case x of
      PyStr s \<Rightarrow>
        (clean_currency_value float_of x = PyNone \<or> (\<exists>v. clean_currency_value float_of x = PyFloat v))
        \<and> (float_of (float_text s) = None \<longrightarrow> clean_currency_value float_of x = PyNone)
    | _ \<Rightarrow> clean_currency_value float_of x = x)"
  by (cases x) (auto simp add: clean_currency_value_PyStr split: option.splits, simp_all add: clean_currency_value_def)

theorem clean_currency_value_total_witness:
  "clean_currency_value float_of_digits (PyStr ''12x'') = PyNone
   \<and> clean_currency_value float_of_digits (PyInt 7) = PyInt 7"
proof -
  have u: "float_of_digits (float_text ''12x'') = None" by code_simp
  show ?thesis
    using clean_currency_value_total [of float_of_digits "PyStr ''12x''"]
      clean_currency_value_total [of float_of_digits "PyInt 7"] u
    by simp
qed

section \<open>Claims on the text columns\<close>

lemma py_str_PyStr: "py_str repr (PyStr s) = s"
  by (simp add: py_str_def)

lemma fold_astype_str_column:
  "fold (astype_str_column repr) cols row c =
     (if c \<in> set cols then map_option (\<lambda>x. PyStr (py_str repr x)) (row c) else row c)"
proof (induction cols arbitrary: row)
  case Nil
  then show ?case by simp
next
  case (Cons a cols)
  have step: "fold (astype_str_column repr) (a # cols) row c =
      (if c \<in> set cols
       then map_option (\<lambda>x. PyStr (py_str repr x)) (astype_str_column repr a row c)
       else astype_str_column repr a row c)"
    by (simp add: Cons.IH)
  have cell: "astype_str_column repr a row c =
      (if c = a then map_option (\<lambda>x. PyStr (py_str repr x)) (row c) else row c)"
    by (cases "row a") (auto simp add: astype_str_column_def)
  show ?case
    unfolding step cell by (cases "row c") (auto simp add: py_str_PyStr)
qed

lemma shape_text_cell:
  assumes "c \<in> set text_columns"
  shows "shape_text_columns repr row c =
           map_option (\<lambda>x. replace_missing (PyStr (py_str repr x))) (row c)"
  using assms by (simp add: shape_text_columns_def fold_astype_str_column option.map_comp comp_def)

lemma shape_text_present:
  assumes "c \<in> set text_columns" and "row c = Some (PyStr s)"
  shows "shape_text_columns repr row c = Some (if s = [] then PyNone else PyStr s)"
  using assms by (simp add: shape_text_cell py_str_PyStr replace_missing_def)

lemma shape_text_nan:
  assumes "c \<in> set text_columns" and "row c = Some PyNaN"
  shows "shape_text_columns repr row c = Some (PyStr ''nan'')"
  using assms by (simp add: shape_text_cell py_str_def replace_missing_def)

text \<open>
  Claim C8 says that a text value that is present is copied as it is and that a missing,
  NaN or empty one becomes \<open>None\<close>. The first and the last hold (\<open>shape_text_present\<close>).
  A missing cell does not become \<open>None\<close>: line 114 has already turned its NaN into the
  string \<open>nan\<close>, which is not a key of the replacement on line 119, so the string \<open>nan\<close>
  is what the row carries to the storage calls. Evaluated on \<open>acme_raw\<close>: the empty
  \<open>Industry\<close> cell ends as the string \<open>nan\<close>, the company name is kept, and the empty
  string of \<open>City\<close> becomes \<open>None\<close>.
\<close>

theorem missing_text_reaches_storage_as_nan:
  "shape_text_columns repr_digits acme_raw ''industry'' = Some (PyStr ''nan'')
   \<and> shape_text_columns repr_digits acme_raw ''company_name'' = Some (PyStr ''Acme'')
   \<and> shape_text_columns repr_digits acme_raw ''city'' = Some PyNone"
proof -
  have cols: "''industry'' \<in> set text_columns" "''company_name'' \<in> set text_columns"
    "''city'' \<in> set text_columns"
    by (simp_all add: text_columns_def)
  have cells: "acme_raw ''industry'' = Some PyNaN" "acme_raw ''company_name'' = Some (PyStr ''Acme'')"
    "acme_raw ''city'' = Some (PyStr [])"
    by (simp_all add: acme_raw_def)
  show ?thesis
    using shape_text_nan [of "''industry''" acme_raw repr_digits]
      shape_text_present [of "''company_name''" acme_raw "''Acme''" repr_digits]
      shape_text_present [of "''city''" acme_raw "[]" repr_digits] cols cells
    by simp
qed

section \<open>Claims on the date dimension rows\<close>

lemma weekday_range: "0 \<le> weekday d \<and> weekday d < 7"
  by (simp add: weekday_def)

lemma weekday_name_working_day:
  assumes "0 \<le> w" and "w < 7"
  shows "(w < 5) = (day_names ! nat w \<in> {Monday, Tuesday, Wednesday, Thursday, Friday})"
proof -
  have "w = 0 \<or> w = 1 \<or> w = 2 \<or> w = 3 \<or> w = 4 \<or> w = 5 \<or> w = 6"
    using assms by arith
  then show ?thesis
    by (elim disjE) (simp_all add: day_names_def)
qed

lemma weekday_known_monday: "weekday (Date 2024 1 1) = 0 \<and> day_names ! nat 0 = Monday"
  by (simp add: weekday_def toordinal_def days_before_year_def days_before_month_def day_names_def)

text \<open>
  Claim C9. Every row built for the date dimension agrees with its \<open>full_date\<close>: \<open>year\<close>,
  \<open>month\<close> and \<open>day\<close> are the components of the date, \<open>day_of_week\<close> is its weekday
  index (between 0 and 6), and \<open>is_weekday\<close> holds exactly when that index names a day
  from Monday to Friday.
\<close>

theorem dim_date_derived_fields_agree:
  assumes "r \<in> set (dim_date_df unique_dates)"
  shows "full_date r \<in> set unique_dates
       \<and> year r = date_year (full_date r)
       \<and> month r = date_month (full_date r)
       \<and> day r = date_day (full_date r)
       \<and> day_of_week r = weekday (full_date r)
       \<and> 0 \<le> day_of_week r \<and> day_of_week r < 7
       \<and> is_weekday r = (day_names ! nat (day_of_week r) \<in> {Monday, Tuesday, Wednesday, Thursday, Friday})"
proof -
  obtain d where d: "d \<in> set unique_dates"
    and r: "r = \<lparr>full_date = d, year = date_year d, month = date_month d, day = date_day d,
                 day_of_week = weekday d, is_weekday = (weekday d < 5)\<rparr>"
    using assms by (auto simp add: dim_date_df_def)
  have "is_weekday r = (day_names ! nat (day_of_week r) \<in> {Monday, Tuesday, Wednesday, Thursday, Friday})"
    using weekday_name_working_day [of "weekday d"] weekday_range [of d] by (simp add: r)
  then show ?thesis
    using d weekday_range [of d] by (simp add: r)
qed

theorem dim_date_derived_fields_agree_witness:
  "(let r = hd (dim_date_df [Date 2024 1 6]) in
      year r = 2024 \<and> month r = 1 \<and> day r = 6 \<and> day_of_week r = 5 \<and> \<not> is_weekday r
      \<and> day_names ! nat (day_of_week r) = Saturday)"
proof -
  have m: "hd (dim_date_df [Date 2024 1 6]) \<in> set (dim_date_df [Date 2024 1 6])"
    by (simp add: dim_date_df_def)
  have w: "weekday (Date 2024 1 6) = 5"
    by (simp add: weekday_def toordinal_def days_before_year_def days_before_month_def)
  have f: "full_date (hd (dim_date_df [Date 2024 1 6])) = Date 2024 1 6"
    by (simp add: dim_date_df_def)
  show ?thesis
    using dim_date_derived_fields_agree [OF m] w f by (simp add: Let_def day_names_def)
qed


section \<open>Claims on the fact upsert\<close>

lemma fact_step_absent_key:
  assumes "company_key r = KeyNone \<or> load_date_key r = KeyNone"
  shows "fact_step r s = (None, s\<lparr>rows_skipped_fact := rows_skipped_fact s + 1\<rparr>)"
  using assms by (simp add: fact_step_def)

lemma fact_step_nan_key:
  assumes "company_key r = KeyNaN" and "load_date_key r \<noteq> KeyNone"
  shows "fact_step r s = (Some ValueError, s)"
  using assms by (simp add: fact_step_def)

lemma fact_try_counts:
  "rows_inserted_fact (snd (fact_try d k r s)) + rows_skipped_fact (snd (fact_try d k r s)) =
     rows_inserted_fact s + rows_skipped_fact s
   \<or> rows_inserted_fact (snd (fact_try d k r s)) + rows_skipped_fact (snd (fact_try d k r s)) =
     rows_inserted_fact s + rows_skipped_fact s + 1"
  by (cases d) (simp_all add: fact_try_def split_beta Let_def)

lemma fact_try_ok_counts:
  assumes "\<not> fst (fact_try d k r s)"
  shows "rows_inserted_fact (snd (fact_try d k r s)) + rows_skipped_fact (snd (fact_try d k r s)) =
     rows_inserted_fact s + rows_skipped_fact s + 1"
  using assms by (cases d) (simp_all add: fact_try_def split_beta Let_def split: if_splits)

lemma fact_step_counts:
  assumes "fst (fact_step r s) = None"
  shows "rows_inserted_fact (snd (fact_step r s)) + rows_skipped_fact (snd (fact_step r s)) =
           rows_inserted_fact s + rows_skipped_fact s + 1
       \<or> rows_inserted_fact (snd (fact_step r s)) + rows_skipped_fact (snd (fact_step r s)) =
           rows_inserted_fact s + rows_skipped_fact s + 2"
proof (cases "company_key r = KeyNone \<or> load_date_key r = KeyNone")
  case True
  then show ?thesis by (simp add: fact_step_absent_key)
next
  case False
  show ?thesis
  proof (cases "company_key r")
    case KeyNaN
    then show ?thesis using assms False by (simp add: fact_step_def)
  next
    case KeyNone
    then show ?thesis using False by simp
  next
    case (Key key)
    show ?thesis
    proof (cases "fst (fact_try (load_date_key r) key r s)")
      case True
      then show ?thesis
        using fact_try_counts [of "load_date_key r" key r s] False
        by (auto simp add: fact_step_def Key split_beta)
    next
      case nr: False
      then show ?thesis
        using fact_try_ok_counts [OF nr] False
        by (simp add: fact_step_def Key split_beta)
    qed
  qed
qed

lemma upsert_facts_Cons:
  "upsert_facts (r # rs) s =
     (if fst (fact_step r s) = None then upsert_facts rs (snd (fact_step r s)) else fact_step r s)"
  by (cases "fact_step r s"; cases "fst (fact_step r s)") auto

lemma upsert_facts_counts:
  assumes "fst (upsert_facts df_fact s) = None"
  shows "rows_inserted_fact s + rows_skipped_fact s + length df_fact
           \<le> rows_inserted_fact (snd (upsert_facts df_fact s)) + rows_skipped_fact (snd (upsert_facts df_fact s))
       \<and> rows_inserted_fact (snd (upsert_facts df_fact s)) + rows_skipped_fact (snd (upsert_facts df_fact s))
           \<le> rows_inserted_fact s + rows_skipped_fact s + 2 * length df_fact"
  using assms
proof (induction df_fact arbitrary: s)
  case Nil
  then show ?case by simp
next
  case (Cons r rs)
  have ok: "fst (fact_step r s) = None"
    using Cons.prems unfolding upsert_facts_Cons by (cases "fst (fact_step r s)") simp_all
  have e: "upsert_facts (r # rs) s = upsert_facts rs (snd (fact_step r s))"
    unfolding upsert_facts_Cons using ok by simp
  have ih: "fst (upsert_facts rs (snd (fact_step r s))) = None"
    using Cons.prems unfolding e .
  show ?case
    unfolding e using Cons.IH [OF ih] fact_step_counts [OF ok] by auto
qed


text \<open>
  Claim C2 says that \<open>written + skipped\<close> equals the number of candidate rows, each row
  with both keys incrementing exactly one counter. Line 242 counts the row as written
  before the commit of line 245; when that commit raises, line 251 counts the same row as
  skipped too. Evaluated on one row with both keys, on a connection whose third call (the
  commit) raises: the loop returns without an error, both counters are 1, their sum is 2,
  and no fact row is stored.
\<close>

theorem commit_failure_counts_row_twice:
  "(let (e, s) = upsert_facts [acme\<lparr>load_date_key := Key 1, company_key := Key 1\<rparr>]
                   \<lparr>fconn = fresh_connection [False, False, True],
                    rows_inserted_fact = 0, rows_skipped_fact = 0\<rparr>
    in (e, rows_inserted_fact s, rows_skipped_fact s, fact_unicorn_snapshot (committed (fconn s))))
   = (None, 1, 1, [])"
  by (simp add: fact_step_def fact_try_def acme_def fresh_connection_def
      begin_nested_def execute_def next_fault_def commit_def rollback_def upsert_fact_def
      empty_tables_def fact_cols_def)

section \<open>Lemmas on the connection and the batch\<close>

lemma next_fault_fields:
  "committed (snd (next_fault c)) = committed c"
  "working (snd (next_fault c)) = working c"
  "in_txn (snd (next_fault c)) = in_txn c"
  "date_key_seq (snd (next_fault c)) = date_key_seq c"
  "company_key_seq (snd (next_fault c)) = company_key_seq c"
  by (simp_all add: next_fault_def split: list.splits)

lemma execute_eq:
  "execute c = (fst (next_fault c), (snd (next_fault c))\<lparr>in_txn := True\<rparr>)"
  by (simp add: execute_def split_beta)

lemma execute_fields:
  "committed (snd (execute c)) = committed c"
  "working (snd (execute c)) = working c"
  "in_txn (snd (execute c))"
  "date_key_seq (snd (execute c)) = date_key_seq c"
  "company_key_seq (snd (execute c)) = company_key_seq c"
  by (simp_all add: execute_eq next_fault_fields)

lemma rollback_fields:
  "committed (rollback c) = committed c"
  "working (rollback c) = committed c"
  "\<not> in_txn (rollback c)"
  "faults (rollback c) = faults c"
  by (simp_all add: rollback_def)

lemma commit_eq:
  assumes "in_txn c"
  shows "commit c =
           (if fst (next_fault c) then (True, snd (next_fault c))
            else (False, (snd (next_fault c))\<lparr>committed := working c, in_txn := False\<rparr>))"
  using assms by (simp add: commit_def split_beta next_fault_fields)

lemma commit_no_txn: "\<not> in_txn c \<Longrightarrow> commit c = (False, c)"
  by (simp add: commit_def)

lemma commit_raised:
  assumes "fst (commit c)"
  shows "committed (snd (commit c)) = committed c" and "working (snd (commit c)) = working c"
proof -
  have t: "in_txn c" using assms commit_no_txn [of c] by (cases "in_txn c") simp_all
  have r: "fst (next_fault c)" using assms t by (simp add: commit_eq split: if_splits)
  show "committed (snd (commit c)) = committed c"
    using t r by (simp add: commit_eq next_fault_fields)
  show "working (snd (commit c)) = working c"
    using t r by (simp add: commit_eq next_fault_fields)
qed

lemma commit_done:
  assumes "in_txn c" and "\<not> fst (commit c)"
  shows "committed (snd (commit c)) = working c" and "working (snd (commit c)) = working c"
    and "\<not> in_txn (snd (commit c))"
proof -
  have r: "\<not> fst (next_fault c)" using assms by (simp add: commit_eq split: if_splits)
  show "committed (snd (commit c)) = working c" using assms(1) r by (simp add: commit_eq)
  show "working (snd (commit c)) = working c" using assms(1) r by (simp add: commit_eq next_fault_fields)
  show "\<not> in_txn (snd (commit c))" using assms(1) r by (simp add: commit_eq)
qed

lemma set_company_key_name:
  "map company_name (set_company_key n v df) = map company_name df"
  by (induction df) (simp_all add: set_company_key_def)

lemma set_company_key_twice:
  "set_company_key n v (set_company_key n w df) = set_company_key n v df"
  by (induction df) (simp_all add: set_company_key_def)


lemma company_name_update_key: "company_name (r\<lparr>company_key := v\<rparr>) = company_name r"
  by simp

lemma key_cell_if:
  "(if company_name a = n then a\<lparr>company_key := cell\<rparr> else a) = x \<Longrightarrow> company_name x = n
     \<Longrightarrow> company_key x = cell"
  by (cases "company_name a = n") auto

lemma set_company_key_cell:
  assumes "x \<in> set (set_company_key n cell df)" and "company_name x = n"
  shows "company_key x = cell"
proof -
  from assms(1) have "x \<in> (\<lambda>r. if company_name r = n then r\<lparr>company_key := cell\<rparr> else r) ` set df"
    by (simp only: set_company_key_def set_map)
  then obtain a where "(if company_name a = n then a\<lparr>company_key := cell\<rparr> else a) = x"
    by (elim imageE) (rule that, rule sym)
  then show ?thesis using assms(2) by (rule key_cell_if)
qed

lemma cell_of_None:
  "cell_of (dtype_after Float64 None) None = KeyNaN"
  "cell_of (dtype_after ObjectDtype None) None = KeyNone"
  "cell_of (dtype_after NoColumn None) None = KeyNone"
  "cell_of (dtype_after (dtype_after d (Some k)) None) None = (if d = ObjectDtype then KeyNone else KeyNaN)"
  by (cases d; simp add: cell_of_def dtype_after_def)+

lemma cell_of_Some: "cell_of d (Some k) = Key k"
  by (simp add: cell_of_def)

lemma loc_company_key_fields:
  "conn (loc_company_key n v s) = conn s"
  "df_transformed (loc_company_key n v s) =
     set_company_key n (cell_of (dtype_after (company_key_dtype s) v) v) (df_transformed s)"
  "company_key_dtype (loc_company_key n v s) = dtype_after (company_key_dtype s) v"
  "rows_inserted_company (loc_company_key n v s) = rows_inserted_company s"
  "rows_updated_company (loc_company_key n v s) = rows_updated_company s"
  by (simp_all add: loc_company_key_def)

section \<open>Claims on the company dimension\<close>

lemma store_key_and_commit_eq:
  "store_key_and_commit n k s =
     (fst (commit (conn s)), (loc_company_key n (Some k) s)\<lparr>conn := snd (commit (conn s))\<rparr>)"
  by (simp add: store_key_and_commit_def Let_def split_beta loc_company_key_fields)

lemma company_try_eq:
  "company_try row s =
     (if fst (begin_nested (conn s)) then (True, s\<lparr>conn := snd (begin_nested (conn s))\<rparr>)
      else if fst (execute (snd (begin_nested (conn s))))
      then (True, s\<lparr>conn := snd (execute (snd (begin_nested (conn s))))\<rparr>)
      else if fst (execute (snd (execute (snd (begin_nested (conn s))))))
      then (True, s\<lparr>conn := snd (execute (snd (execute (snd (begin_nested (conn s))))))\<rparr>)
      else
        case select_company_key (company_row.company_name row)
               (working (snd (execute (snd (begin_nested (conn s)))))) of
          Some key \<Rightarrow>
            store_key_and_commit (company_row.company_name row) key
              (s\<lparr>conn := (snd (execute (snd (execute (snd (begin_nested (conn s)))))))
                          \<lparr>working := update_company row
                             (working (snd (execute (snd (execute (snd (begin_nested (conn s)))))))) \<rparr>,
                 rows_updated_company := rows_updated_company s + 1\<rparr>)
        | None \<Rightarrow>
            store_key_and_commit (company_row.company_name row)
              (company_key_seq (snd (execute (snd (execute (snd (begin_nested (conn s))))))))
              (s\<lparr>conn := (snd (execute (snd (execute (snd (begin_nested (conn s)))))))
                          \<lparr>working := insert_company
                             (company_key_seq (snd (execute (snd (execute (snd (begin_nested (conn s))))))))
                             row
                             (working (snd (execute (snd (execute (snd (begin_nested (conn s)))))))),
                           company_key_seq :=
                             company_key_seq (snd (execute (snd (execute (snd (begin_nested (conn s)))))))
                             + 1\<rparr>,
                 rows_inserted_company := rows_inserted_company s + 1\<rparr>))"
  unfolding company_try_def split_beta by (simp split: option.splits)

lemma begin_nested_fields:
  "committed (snd (begin_nested c)) = committed c"
  "working (snd (begin_nested c)) = working c"
  "in_txn (snd (begin_nested c))"
  "company_key_seq (snd (begin_nested c)) = company_key_seq c"
  by (simp_all add: begin_nested_def execute_fields)

text \<open>
  The outcomes of the \<open>try\<close> body: a storage call before the write raised, or the write
  was made on the working tables and the commit decides.
\<close>

lemma company_try_outcome:
  obtains (early) c where
      "company_try row s = (True, s\<lparr>conn := c\<rparr>)"
      "committed c = committed (conn s)"
  | (written) c s1 k where
      "company_try row s = (fst (commit c), s1\<lparr>conn := snd (commit c)\<rparr>)"
      "in_txn c"
      "committed c = committed (conn s)"
      "working c = update_company row (working (conn s))
         \<or> working c = insert_company k row (working (conn s))"
      "df_transformed s1 =
         set_company_key (company_row.company_name row) (Key k) (df_transformed s)"
      "company_key_dtype s1 = dtype_after (company_key_dtype s) (Some k)"
proof -
  define c1 where "c1 = snd (begin_nested (conn s))"
  define c2 where "c2 = snd (execute c1)"
  define c3 where "c3 = snd (execute c2)"
  have cm: "committed c1 = committed (conn s)" "committed c2 = committed (conn s)"
    "committed c3 = committed (conn s)"
    by (simp_all add: c1_def c2_def c3_def begin_nested_fields execute_fields)
  have wk: "working c2 = working (conn s)" "working c3 = working (conn s)"
    by (simp_all add: c1_def c2_def c3_def begin_nested_fields execute_fields)
  have tx: "in_txn c3" by (simp add: c3_def execute_fields)
  note eq = company_try_eq [of row s, folded c1_def, folded c2_def, folded c3_def]
  consider (r1) "fst (begin_nested (conn s))"
    | (r2) "\<not> fst (begin_nested (conn s))" "fst (execute c1)"
    | (r3) "\<not> fst (begin_nested (conn s))" "\<not> fst (execute c1)" "fst (execute c2)"
    | (upd) key where "\<not> fst (begin_nested (conn s))" "\<not> fst (execute c1)" "\<not> fst (execute c2)"
        "select_company_key (company_row.company_name row) (working c2) = Some key"
    | (ins) "\<not> fst (begin_nested (conn s))" "\<not> fst (execute c1)" "\<not> fst (execute c2)"
        "select_company_key (company_row.company_name row) (working c2) = None"
    by (cases "select_company_key (company_row.company_name row) (working c2)") auto
  then show thesis
  proof cases
    case r1
    show thesis by (rule early [of c1]) (simp_all add: eq r1 cm)
  next
    case r2
    show thesis by (rule early [of c2]) (simp_all add: eq r2 cm)
  next
    case r3
    show thesis by (rule early [of c3]) (simp_all add: eq r3 cm)
  next
    case upd
    have e: "company_try row s =
        store_key_and_commit (company_row.company_name row) key
          (s\<lparr>conn := c3\<lparr>working := update_company row (working c3)\<rparr>,
             rows_updated_company := rows_updated_company s + 1\<rparr>)"
      by (simp add: eq upd)
    show thesis
      by (rule written [of "c3\<lparr>working := update_company row (working c3)\<rparr>"
             "loc_company_key (company_row.company_name row) (Some key)
                (s\<lparr>conn := c3\<lparr>working := update_company row (working c3)\<rparr>,
                   rows_updated_company := rows_updated_company s + 1\<rparr>)" key])
         (simp_all add: e store_key_and_commit_eq loc_company_key_fields cell_of_Some cm wk tx)
  next
    case ins
    have e: "company_try row s =
        store_key_and_commit (company_row.company_name row) (company_key_seq c3)
          (s\<lparr>conn := c3\<lparr>working := insert_company (company_key_seq c3) row (working c3),
                           company_key_seq := company_key_seq c3 + 1\<rparr>,
             rows_inserted_company := rows_inserted_company s + 1\<rparr>)"
      by (simp add: eq ins)
    show thesis
      by (rule written [of "c3\<lparr>working := insert_company (company_key_seq c3) row (working c3),
                               company_key_seq := company_key_seq c3 + 1\<rparr>"
             "loc_company_key (company_row.company_name row) (Some (company_key_seq c3))
                (s\<lparr>conn := c3\<lparr>working := insert_company (company_key_seq c3) row (working c3),
                                 company_key_seq := company_key_seq c3 + 1\<rparr>,
                   rows_inserted_company := rows_inserted_company s + 1\<rparr>)"
             "company_key_seq c3"])
         (simp_all add: e store_key_and_commit_eq loc_company_key_fields cell_of_Some cm wk tx)
  qed
qed

lemma company_step_eq:
  "company_step row s =
     (if fst (company_try row s)
      then loc_company_key (company_row.company_name row) None
             ((snd (company_try row s))\<lparr>conn := rollback (conn (snd (company_try row s)))\<rparr>)
      else snd (company_try row s))"
  by (simp add: company_step_def split_beta)

text \<open>
  The cell a failed iteration leaves in the rows of its company: \<open>None\<close> in an object
  column, NaN in a float64 column. A column that does not exist yet becomes an object
  column when the failure comes before line 199, and a float64 column when line 199 has
  stored the key and the commit of line 201 raises.
\<close>

lemma company_step_effect:
  shows company_step_clean:
      "working (conn (company_step row s)) = committed (conn (company_step row s))"
    and company_step_no_txn: "\<not> in_txn (conn (company_step row s))"
    and company_step_failed:
      "fst (company_try row s) \<Longrightarrow>
         committed (conn (company_step row s)) = committed (conn s)
         \<and> (\<exists>cell. df_transformed (company_step row s) =
                     set_company_key (company_row.company_name row) cell (df_transformed s)
                   \<and> (cell = KeyNone \<or> cell = KeyNaN)
                   \<and> (company_key_dtype s = Float64 \<longrightarrow> cell = KeyNaN)
                   \<and> (company_key_dtype s = ObjectDtype \<longrightarrow> cell = KeyNone))"
    and company_step_committed:
      "committed (conn (company_step row s)) = committed (conn s)
       \<or> committed (conn (company_step row s)) = update_company row (working (conn s))
       \<or> (\<exists>k. committed (conn (company_step row s)) = insert_company k row (working (conn s)))"
proof -
  have "working (conn (company_step row s)) = committed (conn (company_step row s))
      \<and> \<not> in_txn (conn (company_step row s))
      \<and> (fst (company_try row s) \<longrightarrow>
           committed (conn (company_step row s)) = committed (conn s)
           \<and> (\<exists>cell. df_transformed (company_step row s) =
                     set_company_key (company_row.company_name row) cell (df_transformed s)
                   \<and> (cell = KeyNone \<or> cell = KeyNaN)
                   \<and> (company_key_dtype s = Float64 \<longrightarrow> cell = KeyNaN)
                   \<and> (company_key_dtype s = ObjectDtype \<longrightarrow> cell = KeyNone)))
      \<and> (committed (conn (company_step row s)) = committed (conn s)
         \<or> committed (conn (company_step row s)) = update_company row (working (conn s))
         \<or> (\<exists>k. committed (conn (company_step row s)) = insert_company k row (working (conn s))))"
  proof (cases rule: company_try_outcome [of row s])
    case (early c)
    have st: "company_step row s =
        loc_company_key (company_row.company_name row) None (s\<lparr>conn := rollback c\<rparr>)"
      by (simp add: company_step_eq early(1))
    have df: "df_transformed (company_step row s) =
        set_company_key (company_row.company_name row)
          (cell_of (dtype_after (company_key_dtype s) None) None) (df_transformed s)"
      by (simp add: st loc_company_key_fields)
    have cell: "(cell_of (dtype_after (company_key_dtype s) None) None = KeyNone
          \<or> cell_of (dtype_after (company_key_dtype s) None) None = KeyNaN)
        \<and> (company_key_dtype s = Float64 \<longrightarrow>
              cell_of (dtype_after (company_key_dtype s) None) None = KeyNaN)
        \<and> (company_key_dtype s = ObjectDtype \<longrightarrow>
              cell_of (dtype_after (company_key_dtype s) None) None = KeyNone)"
      by (cases "company_key_dtype s") (simp_all add: cell_of_None)
    have tb: "working (conn (company_step row s)) = committed (conn s)"
      "committed (conn (company_step row s)) = committed (conn s)"
      "\<not> in_txn (conn (company_step row s))"
      by (simp_all add: st loc_company_key_fields rollback_fields early(2))
    show ?thesis
      using df cell tb by metis
  next
    case (written c s1 k)
    show ?thesis
    proof (cases "fst (commit c)")
      case True
      have st: "company_step row s =
          loc_company_key (company_row.company_name row) None
            (s1\<lparr>conn := rollback (snd (commit c))\<rparr>)"
        by (simp add: company_step_eq written(1) True)
      have cm: "committed (snd (commit c)) = committed (conn s)"
        using commit_raised(1) [OF True] written(3) by simp
      have df: "df_transformed (company_step row s) =
          set_company_key (company_row.company_name row)
            (if company_key_dtype s = ObjectDtype then KeyNone else KeyNaN) (df_transformed s)"
        by (simp add: st loc_company_key_fields written(5,6) set_company_key_twice cell_of_None)
      have cell: "((if company_key_dtype s = ObjectDtype then KeyNone else KeyNaN) = KeyNone
            \<or> (if company_key_dtype s = ObjectDtype then KeyNone else KeyNaN) = KeyNaN)
          \<and> (company_key_dtype s = Float64 \<longrightarrow>
                (if company_key_dtype s = ObjectDtype then KeyNone else KeyNaN) = KeyNaN)
          \<and> (company_key_dtype s = ObjectDtype \<longrightarrow>
                (if company_key_dtype s = ObjectDtype then KeyNone else KeyNaN) = KeyNone)"
        by simp
      have tb: "working (conn (company_step row s)) = committed (conn s)"
        "committed (conn (company_step row s)) = committed (conn s)"
        "\<not> in_txn (conn (company_step row s))"
        by (simp_all add: st loc_company_key_fields rollback_fields cm)
      show ?thesis
        using df cell tb by metis
    next
      case False
      have st: "company_step row s = s1\<lparr>conn := snd (commit c)\<rparr>"
        by (simp add: company_step_eq written(1) False)
      have cm: "committed (snd (commit c)) = working c" "working (snd (commit c)) = working c"
        "\<not> in_txn (snd (commit c))"
        using commit_done [OF written(2) False] by simp_all
      have fl: "\<not> fst (company_try row s)" by (simp add: written(1) False)
      from written(4) show ?thesis
        by (auto simp add: st cm fl)
    qed
  qed
  then show "working (conn (company_step row s)) = committed (conn (company_step row s))"
    and "\<not> in_txn (conn (company_step row s))"
    and "fst (company_try row s) \<Longrightarrow>
         committed (conn (company_step row s)) = committed (conn s)
         \<and> (\<exists>cell. df_transformed (company_step row s) =
                     set_company_key (company_row.company_name row) cell (df_transformed s)
                   \<and> (cell = KeyNone \<or> cell = KeyNaN)
                   \<and> (company_key_dtype s = Float64 \<longrightarrow> cell = KeyNaN)
                   \<and> (company_key_dtype s = ObjectDtype \<longrightarrow> cell = KeyNone))"
    and "committed (conn (company_step row s)) = committed (conn s)
       \<or> committed (conn (company_step row s)) = update_company row (working (conn s))
       \<or> (\<exists>k. committed (conn (company_step row s)) = insert_company k row (working (conn s)))"
    by blast+
qed

lemma reconcile_companies_append:
  "reconcile_companies (xs @ ys) s = reconcile_companies ys (reconcile_companies xs s)"
  by (simp add: reconcile_companies_def)

lemma reconcile_companies_Cons:
  "reconcile_companies (row # ys) s = reconcile_companies ys (company_step row s)"
  by (simp add: reconcile_companies_def)

lemma reconcile_companies_clean:
  assumes "working (conn s) = committed (conn s)"
  shows "working (conn (reconcile_companies xs s)) = committed (conn (reconcile_companies xs s))"
  using assms
proof (induction xs arbitrary: s)
  case Nil
  then show ?case by (simp add: reconcile_companies_def)
next
  case (Cons a xs)
  show ?case
    unfolding reconcile_companies_Cons by (rule Cons.IH) (rule company_step_clean)
qed

text \<open>
  What holds of an iteration that raises, in the state reached after the companies
  before it: the committed and the working tables are as those companies left them, the
  loop goes on with the companies after it, and every batch row of the company carries
  one cell, \<open>None\<close> or NaN. Once a key has been stored in the column (float64), the cell
  is NaN.
\<close>

lemma company_failure_is_isolated:
  assumes clean: "working (conn s) = committed (conn s)"
    and fails: "fst (company_try row (reconcile_companies before s))"
  shows "reconcile_companies (before @ row # after) s =
           reconcile_companies after (company_step row (reconcile_companies before s))
       \<and> committed (conn (company_step row (reconcile_companies before s))) =
           committed (conn (reconcile_companies before s))
       \<and> working (conn (company_step row (reconcile_companies before s))) =
           working (conn (reconcile_companies before s))
       \<and> (\<exists>cell. (cell = KeyNone \<or> cell = KeyNaN)
             \<and> (company_key_dtype (reconcile_companies before s) = Float64 \<longrightarrow> cell = KeyNaN)
             \<and> (company_key_dtype (reconcile_companies before s) = ObjectDtype \<longrightarrow> cell = KeyNone)
             \<and> (\<forall>x\<in>set (df_transformed (company_step row (reconcile_companies before s))).
                   company_name x = company_row.company_name row \<longrightarrow> company_key x = cell))"
proof -
  define s1 where "s1 = reconcile_companies before s"
  define s2 where "s2 = company_step row s1"
  have c1: "working (conn s1) = committed (conn s1)"
    unfolding s1_def using clean by (rule reconcile_companies_clean)
  have f: "committed (conn s2) = committed (conn s1)"
    using company_step_failed [of row s1] fails by (simp add: s1_def s2_def)
  obtain cell where d: "df_transformed s2 =
        set_company_key (company_row.company_name row) cell (df_transformed s1)"
    and cl: "cell = KeyNone \<or> cell = KeyNaN"
      "company_key_dtype s1 = Float64 \<longrightarrow> cell = KeyNaN"
      "company_key_dtype s1 = ObjectDtype \<longrightarrow> cell = KeyNone"
    using company_step_failed [of row s1] fails unfolding s1_def s2_def by blast
  have w: "working (conn s2) = working (conn s1)"
    using company_step_clean [of row s1] f c1 by (simp add: s2_def)
  have k: "\<forall>x\<in>set (df_transformed s2).
      company_name x = company_row.company_name row \<longrightarrow> company_key x = cell"
    unfolding d using set_company_key_cell by blast
  have a: "reconcile_companies (before @ row # after) s = reconcile_companies after s2"
    by (simp only: reconcile_companies_append reconcile_companies_Cons s1_def s2_def)
  show ?thesis
    using a f w k cl unfolding s1_def s2_def by blast
qed

text \<open>
  Claim C3 says that a company whose processing fails is recorded with key \<open>None\<close>. The
  loop does go on and the earlier companies' rows stay (\<open>company_failure_is_isolated\<close>),
  but line 207 stores \<open>None\<close> into the column that line 199 created as float64, where
  it becomes NaN. Evaluated on the batch Acme, Bolt with Acme inserted under key 1 and
  Bolt's \<open>SELECT\<close> raising: Bolt's processing fails, Acme's row stays committed, and the
  key cells are 1 and NaN, not 1 and \<open>None\<close>.
\<close>

theorem failed_company_key_is_nan:
  "(let s0 = company_state_of [acme, bolt] [False, False, False, False, False, True];
        s1 = reconcile_companies [dim_company_cols acme] s0;
        s2 = reconcile_companies [dim_company_cols acme, dim_company_cols bolt] s0
    in (fst (company_try (dim_company_cols bolt) s1),
        map company_key (df_transformed s2),
        map fst (dim_company (committed (conn s2)))))
   = (True, [Key 1, KeyNaN], [1])"
  by code_simp

lemma keep_first_first:
  assumes "x \<in> set (keep_first key seen xs)"
  shows "key x \<notin> set seen \<and> find (\<lambda>y. key y = key x) xs = Some x"
  using assms
proof (induction xs arbitrary: seen)
  case Nil
  then show ?case by simp
next
  case (Cons a xs)
  show ?case
  proof (cases "key a \<in> set seen")
    case True
    then have "x \<in> set (keep_first key seen xs)" using Cons.prems by simp
    then have ih: "key x \<notin> set seen" "find (\<lambda>y. key y = key x) xs = Some x"
      using Cons.IH by blast+
    then have "key a \<noteq> key x" using True by auto
    then show ?thesis using ih by simp
  next
    case False
    then have "x = a \<or> x \<in> set (keep_first key (key a # seen) xs)"
      using Cons.prems by simp
    then show ?thesis
    proof
      assume "x = a"
      then show ?thesis using False by simp
    next
      assume "x \<in> set (keep_first key (key a # seen) xs)"
      then have ih: "key x \<notin> set (key a # seen)" "find (\<lambda>y. key y = key x) xs = Some x"
        using Cons.IH by blast+
      then show ?thesis by auto
    qed
  qed
qed

lemma keep_first_distinct: "distinct (map key (keep_first key seen xs))"
proof (induction xs arbitrary: seen)
  case Nil
  then show ?case by simp
next
  case (Cons a xs)
  have "key a \<notin> key ` set (keep_first key (key a # seen) xs)"
    using keep_first_first [of _ key "key a # seen" xs] by fastforce
  then show ?case using Cons.IH by simp
qed

lemma keep_first_keys: "key ` set (keep_first key seen xs) = key ` set xs - set seen"
  by (induction xs arbitrary: seen) auto











section \<open>Claims on the date dimension step\<close>

lemma dict_update_map_of: "dict_update m pairs = m ++ map_of (rev pairs)"
proof (induction pairs arbitrary: m)
  case Nil
  then show ?case by (simp add: dict_update_def)
next
  case (Cons p ps)
  obtain a b where p: "p = (a, b)" by (cases p)
  have "dict_update m (p # ps) = dict_update (m(a \<mapsto> b)) ps"
    by (simp add: dict_update_def p)
  also have "\<dots> = m(a \<mapsto> b) ++ map_of (rev ps)"
    by (rule Cons.IH)
  also have "\<dots> = m ++ map_of (rev (p # ps))"
    by (simp add: p map_add_upd_left map_add_assoc [symmetric])
  finally show ?case .
qed

lemma dict_update_append: "dict_update m (xs @ ys) = dict_update (dict_update m xs) ys"
  by (simp add: dict_update_def)

lemma dict_update_None: "dict_update m pairs k = None \<longleftrightarrow> m k = None \<and> k \<notin> fst ` set pairs"
  by (auto simp add: dict_update_map_of map_add_None map_of_eq_None_iff)

lemma dict_of_None: "dict_of pairs k = None \<longleftrightarrow> k \<notin> fst ` set pairs"
  by (simp add: dict_of_def dict_update_None)

lemma select_dates_dates: "fst ` set (select_dates t) = (full_date \<circ> snd) ` set (dim_date t)"
  by (force simp add: select_dates_def)

lemma existing_date_map_None:
  "existing_date_map_of t d = None \<longleftrightarrow> d \<notin> (full_date \<circ> snd) ` set (dim_date t)"
  by (simp add: existing_date_map_of_def dict_of_None select_dates_dates)

lemma to_sql_dim_date_eq:
  "to_sql_dim_date rows c =
     (fst (execute c),
      if fst (execute c) then snd (execute c)
      else (snd (execute c))\<lparr>working := insert_dates (date_key_seq c) rows (working c),
                               date_key_seq := date_key_seq c + length rows\<rparr>)"
  by (simp add: to_sql_dim_date_def split_beta execute_fields)

lemma reconcile_dates_eq:
  "reconcile_dates df c =
     (if fst (execute c) then (Inl DatabaseError, snd (execute c))
      else if new_dates_to_insert_of df (working c) = []
      then (Inr (map_load_date_key (existing_date_map_of (working c)) df), snd (execute c))
      else if fst (to_sql_dim_date (new_dates_to_insert_of df (working c)) (snd (execute c)))
      then (Inl DatabaseError,
            snd (to_sql_dim_date (new_dates_to_insert_of df (working c)) (snd (execute c))))
      else if fst (commit (snd (to_sql_dim_date (new_dates_to_insert_of df (working c))
                                 (snd (execute c)))))
      then (Inl DatabaseError,
            snd (commit (snd (to_sql_dim_date (new_dates_to_insert_of df (working c))
                               (snd (execute c))))))
      else if fst (execute (snd (commit (snd (to_sql_dim_date
                      (new_dates_to_insert_of df (working c)) (snd (execute c)))))))
      then (Inl DatabaseError,
            snd (execute (snd (commit (snd (to_sql_dim_date
                      (new_dates_to_insert_of df (working c)) (snd (execute c))))))))
      else (Inr (map_load_date_key
                   (dict_update (existing_date_map_of (working c))
                      (select_dates_in (map full_date (new_dates_to_insert_of df (working c)))
                         (working (snd (execute (snd (commit (snd (to_sql_dim_date
                            (new_dates_to_insert_of df (working c)) (snd (execute c)))))))))))
                   df),
            snd (execute (snd (commit (snd (to_sql_dim_date
                      (new_dates_to_insert_of df (working c)) (snd (execute c)))))))))"
  unfolding reconcile_dates_def Let_def split_beta existing_date_map_of_def
    new_dates_to_insert_of_def execute_fields
  by simp

text \<open>
  The outcomes of the date step: a storage call raised; every date of the batch is
  already stored and nothing is written; or the missing dates were inserted and
  committed.
\<close>

lemma reconcile_dates_outcome:
  obtains (raised) c' where
      "reconcile_dates df c = (Inl DatabaseError, c')"
      "working c' = working c
         \<or> working c' = insert_dates (date_key_seq c) (new_dates_to_insert_of df (working c)) (working c)"
      "committed c' = committed c
         \<or> committed c' = insert_dates (date_key_seq c) (new_dates_to_insert_of df (working c)) (working c)"
  | (present)
      "new_dates_to_insert_of df (working c) = []"
      "reconcile_dates df c =
         (Inr (map_load_date_key (existing_date_map_of (working c)) df), snd (execute c))"
  | (inserted) c' where
      "new_dates_to_insert_of df (working c) \<noteq> []"
      "reconcile_dates df c =
         (Inr (map_load_date_key
                 (dict_update (existing_date_map_of (working c))
                    (select_dates_in (map full_date (new_dates_to_insert_of df (working c)))
                       (insert_dates (date_key_seq c) (new_dates_to_insert_of df (working c))
                          (working c))))
                 df), c')"
      "working c' = insert_dates (date_key_seq c) (new_dates_to_insert_of df (working c)) (working c)"
      "committed c' = working c'"
      "in_txn c'"
proof -
  define new where "new = new_dates_to_insert_of df (working c)"
  define c1 where "c1 = snd (execute c)"
  define c2 where "c2 = snd (to_sql_dim_date new c1)"
  define c3 where "c3 = snd (commit c2)"
  define c4 where "c4 = snd (execute c3)"
  note eq = reconcile_dates_eq [of df c, folded new_def, folded c1_def, folded c2_def,
      folded c3_def, folded c4_def]
  have f1: "working c1 = working c" "committed c1 = committed c" "date_key_seq c1 = date_key_seq c"
    by (simp_all add: c1_def execute_fields)
  have f2r: "fst (to_sql_dim_date new c1) \<Longrightarrow> working c2 = working c \<and> committed c2 = committed c"
    by (simp add: c2_def to_sql_dim_date_eq execute_fields f1)
  have f2: "\<not> fst (to_sql_dim_date new c1) \<Longrightarrow>
      working c2 = insert_dates (date_key_seq c) new (working c) \<and> committed c2 = committed c
      \<and> in_txn c2"
    by (simp add: c2_def to_sql_dim_date_eq execute_fields f1)
  have f3r: "fst (commit c2) \<Longrightarrow> working c3 = working c2 \<and> committed c3 = committed c2"
    using commit_raised [of c2] by (simp add: c3_def)
  have f3: "in_txn c2 \<Longrightarrow> \<not> fst (commit c2) \<Longrightarrow> working c3 = working c2 \<and> committed c3 = working c2"
    using commit_done [of c2] by (simp add: c3_def)
  have f4: "working c4 = working c3" "committed c4 = committed c3" "in_txn c4"
    by (simp_all add: c4_def execute_fields)
  consider (a) "fst (execute c)"
    | (b) "\<not> fst (execute c)" "new = []"
    | (c) "\<not> fst (execute c)" "new \<noteq> []" "fst (to_sql_dim_date new c1)"
    | (d) "\<not> fst (execute c)" "new \<noteq> []" "\<not> fst (to_sql_dim_date new c1)" "fst (commit c2)"
    | (e) "\<not> fst (execute c)" "new \<noteq> []" "\<not> fst (to_sql_dim_date new c1)" "\<not> fst (commit c2)"
        "fst (execute c3)"
    | (f) "\<not> fst (execute c)" "new \<noteq> []" "\<not> fst (to_sql_dim_date new c1)" "\<not> fst (commit c2)"
        "\<not> fst (execute c3)"
    by blast
  then show thesis
  proof cases
    case a
    show thesis by (rule raised [of c1, folded new_def]) (simp_all add: eq a f1)
  next
    case b
    show thesis using b by (intro present [folded new_def c1_def]) (simp_all add: eq)
  next
    case c
    show thesis using f2r [OF c(3)] by (intro raised [of c2, folded new_def]) (simp_all add: eq c)
  next
    case d
    show thesis using f2 [OF d(3)] f3r [OF d(4)]
      by (intro raised [of c3, folded new_def]) (simp_all add: eq d)
  next
    case e
    show thesis using f2 [OF e(3)] f3 [OF _ e(4)] f4
      by (intro raised [of c4, folded new_def]) (simp_all add: eq e)
  next
    case f
    show thesis using f2 [OF f(3)] f3 [OF _ f(4)] f4 f(2)
      by (intro inserted [of c4, folded new_def]) (simp_all add: eq f)
  qed
qed

lemma unique_set: "set (unique xs) = set xs"
  using keep_first_keys [of "\<lambda>x. x" "[]" xs] by (simp add: unique_def)

lemma unique_distinct: "distinct (unique xs)"
  using keep_first_distinct [of "\<lambda>x. x" "[]" xs] by (simp add: unique_def)

lemma full_date_dim_date_df: "map full_date (dim_date_df ds) = ds"
  by (induction ds) (simp_all add: dim_date_df_def)

lemma new_dates_distinct: "distinct (map full_date (new_dates_to_insert_of df t))"
  unfolding new_dates_to_insert_of_def
  by (rule distinct_map_filter) (simp add: full_date_dim_date_df unique_distinct)

lemma new_dates_not_stored:
  assumes "r \<in> set (new_dates_to_insert_of df t)"
  shows "full_date r \<notin> (full_date \<circ> snd) ` set (dim_date t)"
  using assms by (simp add: new_dates_to_insert_of_def existing_date_map_None)

lemma new_dates_none_iff:
  "new_dates_to_insert_of df t = [] \<longleftrightarrow>
     (\<forall>d\<in>set (map load_date df). existing_date_map_of t d \<noteq> None)"
proof -
  have "new_dates_to_insert_of df t = [] \<longleftrightarrow>
      (\<forall>d\<in>set (map full_date (dim_date_df (unique (map load_date df)))).
         existing_date_map_of t d \<noteq> None)"
    by (simp add: new_dates_to_insert_of_def filter_empty_conv)
  then show ?thesis
    by (simp only: full_date_dim_date_df unique_set)
qed

lemma existing_date_map_cong:
  assumes "dim_date t1 = dim_date t2"
  shows "existing_date_map_of t1 = existing_date_map_of t2"
    and "new_dates_to_insert_of df t1 = new_dates_to_insert_of df t2"
  using assms by (simp_all add: new_dates_to_insert_of_def existing_date_map_of_def select_dates_def)

lemma dim_date_insert_dates:
  "dim_date (insert_dates k rows t) = dim_date t @ zip [k ..< k + length rows] rows"
  by (simp add: insert_dates_def)

lemma select_dates_insert_dates:
  "select_dates (insert_dates k rows t) =
     select_dates t @ map (\<lambda>(k, r). (full_date r, k)) (zip [k ..< k + length rows] rows)"
  by (simp add: select_dates_def dim_date_insert_dates)

lemma zip_keys_dates:
  "map (full_date \<circ> snd) (zip [k ..< k + length rows] rows) = map full_date rows"
proof -
  have "map snd (zip [k ..< k + length rows] rows) = rows"
    by (rule map_snd_zip) simp
  then show ?thesis
    by (metis map_map)
qed

lemma select_dates_in_inserted:
  assumes "new = new_dates_to_insert_of df t"
  shows "select_dates_in (map full_date new) (insert_dates k new t) =
           map (\<lambda>(k, r). (full_date r, k)) (zip [k ..< k + length new] new)"
proof -
  have old: "filter (\<lambda>(d, k). d \<in> set (map full_date new)) (select_dates t) = []"
  proof -
    have "\<And>d k'. (d, k') \<in> set (select_dates t) \<Longrightarrow> d \<notin> set (map full_date new)"
    proof
      fix d k' assume m: "(d, k') \<in> set (select_dates t)" and n: "d \<in> set (map full_date new)"
      from m have "d \<in> fst ` set (select_dates t)" by force
      then have "d \<in> (full_date \<circ> snd) ` set (dim_date t)" by (simp only: select_dates_dates)
      moreover from n obtain r where "r \<in> set new" "d = full_date r" by auto
      ultimately show False
        using new_dates_not_stored [of r df t] assms by simp
    qed
    then show ?thesis by (auto simp add: filter_empty_conv)
  qed
  have fresh: "filter (\<lambda>(d, k). d \<in> set (map full_date new))
                 (map (\<lambda>(k, r). (full_date r, k)) (zip [k ..< k + length new] new)) =
               map (\<lambda>(k, r). (full_date r, k)) (zip [k ..< k + length new] new)"
  proof -
    have "\<And>p. p \<in> set (zip [k ..< k + length new] new) \<Longrightarrow> full_date (snd p) \<in> full_date ` set new"
      by (metis imageI prod.collapse set_zip_rightD)
    then show ?thesis
      by (auto simp add: filter_id_conv)
  qed
  show ?thesis
    by (simp only: select_dates_in_def select_dates_insert_dates filter_append old fresh append_Nil)
qed

lemma existing_date_map_inserted:
  assumes "new = new_dates_to_insert_of df t"
  shows "dict_update (existing_date_map_of t)
           (select_dates_in (map full_date new) (insert_dates k new t)) =
         existing_date_map_of (insert_dates k new t)"
  by (simp add: select_dates_in_inserted [OF assms] existing_date_map_of_def dict_of_def
      select_dates_insert_dates dict_update_append)

lemma new_dates_after_insert:
  assumes "new = new_dates_to_insert_of df t"
  shows "new_dates_to_insert_of df (insert_dates k new t) = []"
proof -
  have "\<forall>d\<in>set (map load_date df). existing_date_map_of (insert_dates k new t) d \<noteq> None"
  proof
    fix d assume d: "d \<in> set (map load_date df)"
    show "existing_date_map_of (insert_dates k new t) d \<noteq> None"
    proof (cases "existing_date_map_of t d = None")
      case True
      have "d \<in> set (map full_date (dim_date_df (unique (map load_date df))))"
        using d by (simp only: full_date_dim_date_df unique_set)
      then obtain r where "r \<in> set (dim_date_df (unique (map load_date df)))" "full_date r = d"
        by auto
      then have "r \<in> set new" using True assms by (simp add: new_dates_to_insert_of_def)
      then have "d \<in> set (map full_date new)" using \<open>full_date r = d\<close> by force
      then have "d \<in> set (map (full_date \<circ> snd) (zip [k ..< k + length new] new))"
        by (simp only: zip_keys_dates)
      then have "d \<in> (full_date \<circ> snd) ` set (dim_date (insert_dates k new t))"
        by (auto simp add: dim_date_insert_dates)
      then show ?thesis by (simp only: existing_date_map_None) simp
    next
      case False
      then have "d \<in> (full_date \<circ> snd) ` set (dim_date t)"
        by (simp only: existing_date_map_None) simp
      then have "d \<in> (full_date \<circ> snd) ` set (dim_date (insert_dates k new t))"
        by (auto simp add: dim_date_insert_dates)
      then show ?thesis by (simp only: existing_date_map_None) simp
    qed
  qed
  then show ?thesis by (simp only: new_dates_none_iff)
qed

lemma insert_dates_distinct:
  assumes "new = new_dates_to_insert_of df t"
    and "distinct (map (full_date \<circ> snd) (dim_date t))"
  shows "distinct (map (full_date \<circ> snd) (dim_date (insert_dates k new t)))"
proof -
  have a: "distinct (map full_date new)"
    unfolding assms(1) by (rule new_dates_distinct)
  have b: "set (map (full_date \<circ> snd) (dim_date t)) \<inter> set (map full_date new) = {}"
  proof -
    have "\<And>d. d \<in> set (map full_date new) \<Longrightarrow> d \<notin> set (map (full_date \<circ> snd) (dim_date t))"
    proof -
      fix d assume "d \<in> set (map full_date new)"
      then obtain r where "r \<in> set new" "d = full_date r" by auto
      then show "d \<notin> set (map (full_date \<circ> snd) (dim_date t))"
        using new_dates_not_stored [of r df t] assms(1) by simp
    qed
    then show ?thesis by blast
  qed
  show ?thesis
    using assms(2) a b by (simp only: dim_date_insert_dates map_append distinct_append zip_keys_dates)
qed

lemma execute_next_fault: "fst (execute c) = fst (next_fault c)"
  by (simp add: execute_eq)

lemma reconcile_dates_all_present:
  assumes "new_dates_to_insert_of df (working c) = []" and "\<not> fst (next_fault c)"
  shows "reconcile_dates df c =
           (Inr (map_load_date_key (existing_date_map_of (working c)) df), snd (execute c))"
  using assms by (simp add: reconcile_dates_eq execute_next_fault)

text \<open>
  Claim C1. After a date step that succeeded, a second date step for the same batch,
  on any connection that sees the same \<open>dim_date\<close> rows and whose query does not raise,
  returns the same \<open>load_date_key\<close> column, writes nothing (working and committed tables
  and the key counter are unchanged), and every row of the batch has a key. If the
  stored dates were pairwise distinct before the first step, they are distinct after it.
\<close>

theorem reconcile_dates_idempotent:
  assumes first: "reconcile_dates df c = (Inr df1, c1)"
    and same: "dim_date (working c2) = dim_date (working c1)"
    and ok: "\<not> fst (next_fault c2)"
  shows "fst (reconcile_dates df c2) = Inr df1
       \<and> working (snd (reconcile_dates df c2)) = working c2
       \<and> committed (snd (reconcile_dates df c2)) = committed c2
       \<and> date_key_seq (snd (reconcile_dates df c2)) = date_key_seq c2
       \<and> (\<forall>r\<in>set df1. \<exists>k. load_date_key r = Key k)
       \<and> (distinct (map (full_date \<circ> snd) (dim_date (working c)))
            \<longrightarrow> distinct (map (full_date \<circ> snd) (dim_date (working c1))))"
proof -
  define new where "new = new_dates_to_insert_of df (working c)"
  have key: "new_dates_to_insert_of df (working c1) = []
      \<and> df1 = map_load_date_key (existing_date_map_of (working c1)) df
      \<and> (distinct (map (full_date \<circ> snd) (dim_date (working c)))
            \<longrightarrow> distinct (map (full_date \<circ> snd) (dim_date (working c1))))"
  proof (cases rule: reconcile_dates_outcome [of df c])
    case (raised c')
    then show ?thesis using first by simp
  next
    case present
    have c1: "c1 = snd (execute c)" and d: "df1 = map_load_date_key (existing_date_map_of (working c)) df"
      using first present(2) by simp_all
    have w: "working c1 = working c" by (simp add: c1 execute_fields)
    show ?thesis by (simp add: w d present(1))
  next
    case (inserted c')
    have c1: "c1 = c'" using first inserted(2) by simp
    have w: "working c1 = insert_dates (date_key_seq c) new (working c)"
      by (simp add: c1 inserted(3) new_def)
    have d: "df1 = map_load_date_key (existing_date_map_of (working c1)) df"
      using first inserted(2) existing_date_map_inserted [OF new_def, of "date_key_seq c"]
      by (simp add: w new_def)
    show ?thesis
      using new_dates_after_insert [OF new_def, of "date_key_seq c"]
        insert_dates_distinct [OF new_def, of "date_key_seq c"]
      by (simp add: w d)
  qed
  have n2: "new_dates_to_insert_of df (working c2) = []"
    using key existing_date_map_cong(2) [OF same, of df] by simp
  have e2: "existing_date_map_of (working c2) = existing_date_map_of (working c1)"
    using existing_date_map_cong(1) [OF same] .
  have run2: "reconcile_dates df c2 = (Inr df1, snd (execute c2))"
    using reconcile_dates_all_present [OF n2 ok] key by (simp add: e2)
  have keys: "\<forall>r\<in>set df1. \<exists>k. load_date_key r = Key k"
  proof
    fix r assume "r \<in> set df1"
    then have "r \<in> (\<lambda>r. r\<lparr>load_date_key :=
                      (case existing_date_map_of (working c1) (load_date r) of
                         Some k \<Rightarrow> Key k | None \<Rightarrow> KeyNaN)\<rparr>) ` set df"
      using key by (simp only: map_load_date_key_def set_map)
    then obtain r0 where r0: "r0 \<in> set df"
      and r: "r = r0\<lparr>load_date_key :=
                      (case existing_date_map_of (working c1) (load_date r0) of
                         Some k \<Rightarrow> Key k | None \<Rightarrow> KeyNaN)\<rparr>"
      by (elim imageE)
    have "existing_date_map_of (working c1) (load_date r0) \<noteq> None"
      using key r0 new_dates_none_iff [of df "working c1"] by simp
    then obtain k where "existing_date_map_of (working c1) (load_date r0) = Some k"
      by blast
    then have "load_date_key r = Key k" by (simp add: r)
    then show "\<exists>k. load_date_key r = Key k" ..
  qed
  show ?thesis
    using key keys by (simp add: run2 execute_fields)
qed

theorem reconcile_dates_idempotent_witness:
  "fst (reconcile_dates [acme] (snd (reconcile_dates [acme] (fresh_connection [])))) =
     Inr [acme\<lparr>load_date_key := Key 1\<rparr>]
   \<and> map fst (dim_date (working (snd (reconcile_dates [acme]
        (snd (reconcile_dates [acme] (fresh_connection []))))))) = [1]"
proof -
  have f: "fst (reconcile_dates [acme] (fresh_connection [])) = Inr [acme\<lparr>load_date_key := Key 1\<rparr>]"
    by code_simp
  have first: "reconcile_dates [acme] (fresh_connection []) =
      (Inr [acme\<lparr>load_date_key := Key 1\<rparr>], snd (reconcile_dates [acme] (fresh_connection [])))"
    using f by (simp add: prod_eq_iff)
  have ok: "\<not> fst (next_fault (snd (reconcile_dates [acme] (fresh_connection []))))"
    by code_simp
  have e: "map fst (dim_date (working (snd (reconcile_dates [acme] (fresh_connection []))))) = [1]"
    by code_simp
  show ?thesis
    using reconcile_dates_idempotent [OF first refl ok] e by simp
qed

section \<open>Claims on the cycle\<close>

lemma reconcile_companies_no_txn:
  assumes "rows \<noteq> []"
  shows "\<not> in_txn (conn (reconcile_companies rows s))"
proof -
  obtain xs a where "rows = xs @ [a]"
    using assms by (metis rev_exhaust)
  then have "reconcile_companies rows s = company_step a (reconcile_companies xs s)"
    by (simp add: reconcile_companies_def)
  then show ?thesis
    by (simp add: company_step_no_txn)
qed

lemma dim_company_df_nonempty:
  assumes "df \<noteq> []"
  shows "dim_company_df df \<noteq> []"
  using assms by (cases df) (simp_all add: dim_company_df_def drop_duplicates_def)

lemma reconcile_dates_length:
  assumes "reconcile_dates df c = (Inr df1, c1)"
  shows "length df1 = length df"
proof (cases rule: reconcile_dates_outcome [of df c])
  case (raised c')
  then show ?thesis using assms by simp
next
  case present
  then show ?thesis using assms by (auto simp add: map_load_date_key_def)
next
  case (inserted c')
  then show ?thesis using assms by (auto simp add: map_load_date_key_def)
qed

lemma insert_dates_other_tables:
  "dim_company (insert_dates k rows t) = dim_company t"
  "fact_unicorn_snapshot (insert_dates k rows t) = fact_unicorn_snapshot t"
  by (simp_all add: insert_dates_def)

lemma load_cycle_date_failure:
  assumes "df \<noteq> []" and "\<not> fst (next_fault c0)"
    and "reconcile_dates df (snd (next_fault c0)) = (Inl e, c1)"
  shows "load_cycle df c0 = cycle_end [DateReconcile, CycleAborted] (close c1) 0 0 0 0"
  using assms by (simp add: load_cycle_def split_beta Let_def)

lemma fact_step_no_error:
  assumes "company_key r \<noteq> KeyNaN"
  shows "fst (fact_step r s) = None"
proof (cases "company_key r")
  case KeyNaN
  then show ?thesis using assms by simp
next
  case KeyNone
  then show ?thesis by (simp add: fact_step_def)
next
  case (Key key)
  then show ?thesis by (simp add: fact_step_def split_beta)
qed

lemma fact_step_error:
  assumes "fst (fact_step r s) = Some e"
  shows "e = ValueError \<and> company_key r = KeyNaN \<and> snd (fact_step r s) = s"
proof (cases "company_key r")
  case KeyNaN
  then show ?thesis using assms by (simp add: fact_step_def split: if_splits)
next
  case KeyNone
  then show ?thesis using assms by (simp add: fact_step_def)
next
  case (Key key)
  then show ?thesis using assms by (simp add: fact_step_def split_beta split: if_splits)
qed

text \<open>
  The fact loop leaves with an error exactly at a row whose \<open>company_key\<close> cell is NaN
  (and whose \<open>load_date_key\<close> cell is not \<open>None\<close>); the error is the \<open>ValueError\<close> of
  line 224.
\<close>

lemma upsert_facts_no_error:
  assumes "\<forall>r\<in>set df_fact. company_key r \<noteq> KeyNaN"
  shows "fst (upsert_facts df_fact s) = None"
  using assms
proof (induction df_fact arbitrary: s)
  case Nil
  then show ?case by simp
next
  case (Cons r rs)
  have ok: "fst (fact_step r s) = None"
    using Cons.prems by (intro fact_step_no_error) simp
  have e: "upsert_facts (r # rs) s = upsert_facts rs (snd (fact_step r s))"
    unfolding upsert_facts_Cons using ok by simp
  show ?case
    unfolding e using Cons.prems by (intro Cons.IH) simp
qed

lemma upsert_facts_error:
  assumes "fst (upsert_facts df_fact s) = Some e"
  shows "e = ValueError \<and> (\<exists>r\<in>set df_fact. company_key r = KeyNaN)"
  using assms
proof (induction df_fact arbitrary: s)
  case Nil
  then show ?case by simp
next
  case (Cons r rs)
  show ?case
  proof (cases "fst (fact_step r s)")
    case None
    have e: "upsert_facts (r # rs) s = upsert_facts rs (snd (fact_step r s))"
      unfolding upsert_facts_Cons using None by simp
    have "e = ValueError \<and> (\<exists>r\<in>set rs. company_key r = KeyNaN)"
      using Cons.prems unfolding e by (rule Cons.IH)
    then show ?thesis by auto
  next
    case (Some e')
    have "upsert_facts (r # rs) s = fact_step r s"
      unfolding upsert_facts_Cons using Some by simp
    then have "fst (fact_step r s) = Some e" using Cons.prems by simp
    then show ?thesis using fact_step_error [of r s e] by auto
  qed
qed

lemma load_cycle_after_dates:
  assumes "df \<noteq> []" and "\<not> fst (next_fault c0)"
    and "reconcile_dates df (snd (next_fault c0)) = (Inr df1, c1)"
  shows "phases (load_cycle df c0) =
           [DateReconcile, CompanyReconcile, FactUpsert,
            if fst (upsert_facts
                      (df_transformed
                         (reconcile_companies (dim_company_df df1)
                            \<lparr>conn = c1, df_transformed = df1, company_key_dtype = NoColumn,
                             rows_inserted_company = 0, rows_updated_company = 0\<rparr>))
                      \<lparr>fconn = conn (reconcile_companies (dim_company_df df1)
                                        \<lparr>conn = c1, df_transformed = df1,
                                         company_key_dtype = NoColumn,
                                         rows_inserted_company = 0, rows_updated_company = 0\<rparr>),
                       rows_inserted_fact = 0, rows_skipped_fact = 0\<rparr>) = None
            then Done else CycleAborted]"
proof -
  define s2 where "s2 = reconcile_companies (dim_company_df df1)
      \<lparr>conn = c1, df_transformed = df1, company_key_dtype = NoColumn,
       rows_inserted_company = 0, rows_updated_company = 0\<rparr>"
  define u where "u = upsert_facts (df_transformed s2)
      \<lparr>fconn = conn s2, rows_inserted_fact = 0, rows_skipped_fact = 0\<rparr>"
  have "df1 \<noteq> []" using reconcile_dates_length [OF assms(3)] assms(1) by auto
  then have "\<not> in_txn (conn s2)"
    unfolding s2_def by (intro reconcile_companies_no_txn dim_company_df_nonempty)
  then have c: "commit (conn s2) = (False, conn s2)" by (rule commit_no_txn)
  have lc: "load_cycle df c0 =
      (case u of
         (Some e, s3) \<Rightarrow>
           cycle_end ([DateReconcile, CompanyReconcile, FactUpsert] @ [CycleAborted])
             (close (fconn s3)) (rows_inserted_company s2) (rows_updated_company s2)
             (rows_inserted_fact s3) (rows_skipped_fact s3)
       | (None, s3) \<Rightarrow>
           cycle_end ([DateReconcile, CompanyReconcile, FactUpsert] @ [Done])
             (close (fconn s3)) (rows_inserted_company s2) (rows_updated_company s2)
             (rows_inserted_fact s3) (rows_skipped_fact s3))"
    using assms c
    by (cases "fst u")
       (simp_all add: load_cycle_def split_beta Let_def s2_def [symmetric] u_def [symmetric])
  show ?thesis
    unfolding s2_def [symmetric] u_def [symmetric] lc
    by (cases u; cases "fst u") (simp_all add: cycle_end_def)
qed

lemma reconcile_dates_raised_tables:
  assumes "reconcile_dates df c = (Inl e, c1)" and "working c = committed c"
  shows "dim_company (committed c1) = dim_company (committed c)"
    and "fact_unicorn_snapshot (committed c1) = fact_unicorn_snapshot (committed c)"
proof -
  have "dim_company (committed c1) = dim_company (committed c)
      \<and> fact_unicorn_snapshot (committed c1) = fact_unicorn_snapshot (committed c)"
  proof (cases rule: reconcile_dates_outcome [of df c])
    case (raised c')
    then have "c1 = c'" using assms(1) by simp
    then show ?thesis
      using raised(3) assms(2) by (auto simp add: insert_dates_other_tables)
  next
    case present
    then show ?thesis using assms(1) by simp
  next
    case (inserted c')
    then show ?thesis using assms(1) by simp
  qed
  then show "dim_company (committed c1) = dim_company (committed c)"
    and "fact_unicorn_snapshot (committed c1) = fact_unicorn_snapshot (committed c)"
    by simp_all
qed

text \<open>
  What holds of a cycle on a non-empty batch and a fresh connection. If the date step
  raises, the cycle ends as \<open>DateReconcile, CycleAborted\<close>, the company and fact tables
  are the committed ones of before, no storage call follows the failing one and all
  counters are zero. If the date step succeeds, the company step never ends the cycle,
  and the cycle ends in \<open>Done\<close> or is aborted inside \<open>FactUpsert\<close>.
\<close>

lemma load_cycle_phases:
  assumes "df \<noteq> []" and "\<not> fst (next_fault c0)" and "working c0 = committed c0"
  shows "(case reconcile_dates df (snd (next_fault c0)) of
            (Inl e, c1) \<Rightarrow>
              phases (load_cycle df c0) = [DateReconcile, CycleAborted]
              \<and> dim_company (committed (connection_after (load_cycle df c0))) =
                  dim_company (committed c0)
              \<and> fact_unicorn_snapshot (committed (connection_after (load_cycle df c0))) =
                  fact_unicorn_snapshot (committed c0)
              \<and> faults (connection_after (load_cycle df c0)) = faults c1
              \<and> companies_inserted (load_cycle df c0) = 0
              \<and> companies_updated (load_cycle df c0) = 0
              \<and> facts_written (load_cycle df c0) = 0
              \<and> facts_skipped (load_cycle df c0) = 0
          | (Inr df1, c1) \<Rightarrow>
              phases (load_cycle df c0) = [DateReconcile, CompanyReconcile, FactUpsert, Done]
              \<or> phases (load_cycle df c0) =
                  [DateReconcile, CompanyReconcile, FactUpsert, CycleAborted])"
proof -
  obtain res c1 where r: "reconcile_dates df (snd (next_fault c0)) = (res, c1)"
    by (cases "reconcile_dates df (snd (next_fault c0))")
  show ?thesis
  proof (cases res)
    case (Inl e)
    have cl: "working (snd (next_fault c0)) = committed (snd (next_fault c0))"
      using assms(3) by (simp add: next_fault_fields)
    have t: "dim_company (committed c1) = dim_company (committed c0)"
      "fact_unicorn_snapshot (committed c1) = fact_unicorn_snapshot (committed c0)"
      using reconcile_dates_raised_tables [OF r [unfolded Inl] cl] by (simp_all add: next_fault_fields)
    have lc: "load_cycle df c0 = cycle_end [DateReconcile, CycleAborted] (close c1) 0 0 0 0"
      using load_cycle_date_failure [OF assms(1,2) r [unfolded Inl]] .
    show ?thesis
      by (simp add: r Inl lc cycle_end_def close_def rollback_fields t)
  next
    case (Inr df1)
    show ?thesis
      using load_cycle_after_dates [OF assms(1,2) r [unfolded Inr]] by (simp add: r Inr)
  qed
qed

text \<open>
  Claim C4 says that the company and fact steps never abort the cycle. The order of the
  steps and the abort on a date failure hold (\<open>load_cycle_phases\<close>), and the company
  step never aborts. The fact step does: after a company failure the key cell is NaN
  (claim C3), line 219 does not skip it, and \<open>int()\<close> on line 224, outside the \<open>try\<close>,
  raises \<open>ValueError\<close>. Evaluated on the batch Acme, Bolt, on a connection whose eleventh
  call (Bolt's \<open>SELECT\<close>) raises: Acme's fact row is written, then the cycle is aborted
  inside \<open>FactUpsert\<close> and Bolt's row is neither written nor counted as skipped.
\<close>

theorem nan_key_aborts_fact_upsert:
  "(let r = load_cycle [acme, bolt]
              (fresh_connection
                 [False, False, False, False, False, False, False, False, False, False, True])
    in (phases r, companies_inserted r, facts_written r, facts_skipped r,
        map fact_row.company_key (fact_unicorn_snapshot (committed (connection_after r)))))
   = ([DateReconcile, CompanyReconcile, FactUpsert, CycleAborted], 1, 1, 0, [1])"
  by code_simp

end
